theory Spec2Isabelle
  imports Main "HOL-Library.Multiset" "HOL-Library.Word"
begin

section \<open>The node and its data\<close>

text \<open>
  The node \<open>AggregateByField\<close> groups its input items by the value of one field.  The
  repository holds two versions of the node.  The development follows the current one (it
  trims the field, can disable dot notation, raises a hint and pairs every output with a
  list of items); the earlier one walks the path with its own \<open>getNestedValue\<close>, which is
  modelled as well.

  The node works on the \<open>json\<close> payload of its input items, an \<open>IDataObject\<close>, whose
  values are \<open>undefined\<close>, \<open>null\<close>, booleans, numbers, strings, arrays and objects.
  \<^item> Strings are lists of code units below 256 (\<open>char\<close> is one byte).
  \<^item> \<open>JNum w\<close> is the integer \<open>sint w\<close>, from \<open>- 2^53\<close> to \<open>2^53 - 1\<close>: every integer
    of this range is a number of JavaScript and prints as its decimal digits.  \<open>JNumText s\<close>
    is any other number (a fraction, a magnitude of \<open>2^53\<close> or more), given by the text
    that \<open>String\<close> prints for it; the node does nothing else with a number.
  \<^item> An object is the list of its own properties, with distinct names; on a list that
    repeats a name the lookup takes the first entry.
\<close>

datatype json =
    JUndefined
  | JNull
  | JBool bool
  | JNum "54 word"
  | JNumText string
  | JStr string
  | JArr "json list"
  | JObj "(string \<times> json) list"

type_synonym IDataObject = "(string \<times> json) list"

text \<open>
  A value at run time is a value of the data or a value of the host that is not data: a
  built-in function or a prototype object, which a lookup reaches through the prototype
  chain (\<open>record.constructor\<close>, \<open>record.__proto__\<close>).  A host value is named by a string.
\<close>

datatype jsvalue =
    Data json
  | Host string

abbreviation Undefined :: jsvalue where
  "Undefined \<equiv> Data JUndefined"

datatype error =
    NodeOperationError string string  \<comment> \<open>message, description\<close>
  | TypeError

text \<open>
  What depends on the host is a parameter of the model:
  \<^item> \<open>inherited v key\<close>: the value that the prototype chain of \<open>v\<close> provides under
    \<open>key\<close> when \<open>v\<close> has no property of its own of that name, or \<open>None\<close> when the
    chain has no such property;
  \<^item> \<open>hostIsObject n\<close>: whether \<open>typeof\<close> of the host value \<open>n\<close> is \<open>object\<close> (a
    prototype object) and not \<open>function\<close>;
  \<^item> \<open>hostString n\<close>: the text that \<open>String\<close> prints for the host value \<open>n\<close>;
  \<^item> \<open>bracketPath obj path\<close>: the keys that lodash reads from a path that holds a
    bracket (its bracket syntax is not modelled).
\<close>

record host =
  inherited :: "jsvalue \<Rightarrow> string \<Rightarrow> jsvalue option"
  hostIsObject :: "string \<Rightarrow> bool"
  hostString :: "string \<Rightarrow> string"
  bracketPath :: "IDataObject \<Rightarrow> string \<Rightarrow> string list"

subsection \<open>Number to string\<close>

fun natToString :: "nat \<Rightarrow> string" where
  "natToString n =
     (if n < 10 then [''0123456789'' ! n]
      else natToString (n div 10) @ [''0123456789'' ! (n mod 10)])"

declare natToString.simps [simp del]

definition numberToString :: "54 word \<Rightarrow> string" where
  "numberToString w =
     (if sint w < 0 then CHR ''-'' # natToString (nat (- sint w)) else natToString (nat (sint w)))"

subsection \<open>\<open>String(value)\<close>\<close>

text \<open>
  \<open>String(v)\<close> on a primitive is its usual text.  On an object it calls the object's
  \<open>toString\<close>: for a plain object that is \<open>Object.prototype.toString\<close>, giving
  \<open>[object Object]\<close>, unless the object has a property of its own named \<open>toString\<close>.  JSON
  data cannot hold a function, so such a property is not callable; \<open>valueOf\<close>, inherited or
  the object's own, gives no primitive either, and the conversion throws a \<open>TypeError\<close>.
  On an array it is \<open>join(',')\<close>: \<open>null\<close> and \<open>undefined\<close> elements give the empty
  string, every other element is converted recursively.
\<close>

fun jsonString :: "json \<Rightarrow> error + string"
  and joinString :: "json list \<Rightarrow> error + string" where
  "jsonString JUndefined = Inr ''undefined''"
| "jsonString JNull = Inr ''null''"
| "jsonString (JBool b) = Inr (if b then ''true'' else ''false'')"
| "jsonString (JNum n) = Inr (numberToString n)"
| "jsonString (JNumText s) = Inr s"
| "jsonString (JStr s) = Inr s"
| "jsonString (JArr xs) = joinString xs"
| "jsonString (JObj kvs) =
     (if ''toString'' \<in> set (map fst kvs) then Inl TypeError else Inr ''[object Object]'')"
| "joinString [] = Inr ''''"
| "joinString (x # xs) =
     (case (if x = JNull \<or> x = JUndefined then Inr '''' else jsonString x) of
        Inl e \<Rightarrow> Inl e
      | Inr s \<Rightarrow>
          (if xs = [] then Inr s
           else (case joinString xs of Inl e \<Rightarrow> Inl e | Inr t \<Rightarrow> Inr (s @ '','' @ t))))"

fun String_js :: "host \<Rightarrow> jsvalue \<Rightarrow> error + string" where
  "String_js h (Data d) = jsonString d"
| "String_js h (Host n) = Inr (hostString h n)"

subsection \<open>Property access \<open>value[key]\<close>\<close>

text \<open>
  The own property of that name, else what the prototype chain provides, else \<open>undefined\<close>.
  The own properties of an array are its elements, under the canonical decimal text of
  their index, and \<open>length\<close>; those of a string its code units and \<open>length\<close>.  The code
  never reads a property of \<open>undefined\<close> or \<open>null\<close> (it tests for them first).
\<close>

definition fromPrototype :: "host \<Rightarrow> jsvalue \<Rightarrow> string \<Rightarrow> jsvalue" where
  "fromPrototype h v key = (case inherited h v key of Some w \<Rightarrow> w | None \<Rightarrow> Undefined)"

fun getProp :: "host \<Rightarrow> jsvalue \<Rightarrow> string \<Rightarrow> jsvalue" where
  "getProp h (Data (JObj kvs)) key =
     (case map_of kvs key of
        Some v \<Rightarrow> Data v
      | None \<Rightarrow> fromPrototype h (Data (JObj kvs)) key)"
| "getProp h (Data (JArr xs)) key =
     (case find (\<lambda>i. natToString i = key) [0..<length xs] of
        Some i \<Rightarrow> Data (xs ! i)
      | None \<Rightarrow>
          if key = ''length'' then Data (JNum (of_nat (length xs)))
          else fromPrototype h (Data (JArr xs)) key)"
| "getProp h (Data (JStr s)) key =
     (case find (\<lambda>i. natToString i = key) [0..<length s] of
        Some i \<Rightarrow> Data (JStr [s ! i])
      | None \<Rightarrow>
          if key = ''length'' then Data (JNum (of_nat (length s)))
          else fromPrototype h (Data (JStr s)) key)"
| "getProp h Undefined key = Undefined"
| "getProp h (Data JNull) key = Undefined"
| "getProp h v key = fromPrototype h v key"


text \<open>
  \<open>outputJson[k] = v\<close> on the object that \<open>execute\<close> builds, which starts as \<open>{}\<close>.
  \<open>__proto__\<close> is an accessor of the prototype: the assignment calls its setter and gives
  the object no property of its own.  Any other name replaces the value of an own property
  in place or adds the property.  The list keeps the order in which JavaScript enumerates
  the properties: the array indices (canonical decimal texts below \<open>2^32 - 1\<close>) in
  ascending order, then the other names in the order of their creation.
\<close>

definition isDigit :: "char \<Rightarrow> bool" where
  "isDigit c \<longleftrightarrow> 48 \<le> (of_char c :: nat) \<and> (of_char c :: nat) \<le> 57"

definition digitsValue :: "string \<Rightarrow> nat" where
  "digitsValue s = foldl (\<lambda>n c. 10 * n + ((of_char c :: nat) - 48)) 0 s"

definition arrayIndex :: "string \<Rightarrow> nat option" where
  "arrayIndex key =
     (if key \<noteq> [] \<and> list_all isDigit key \<and> (key = ''0'' \<or> hd key \<noteq> CHR ''0'')
         \<and> digitsValue key < 4294967295
      then Some (digitsValue key) else None)"

fun addProp :: "string \<Rightarrow> json \<Rightarrow> IDataObject \<Rightarrow> IDataObject" where
  "addProp k v [] = [(k, v)]"
| "addProp k v ((k', v') # kvs) =
     (case arrayIndex k of
        None \<Rightarrow> (k', v') # addProp k v kvs
      | Some n \<Rightarrow>
          (case arrayIndex k' of
             None \<Rightarrow> (k, v) # (k', v') # kvs
           | Some n' \<Rightarrow>
               if n < n' then (k, v) # (k', v') # kvs else (k', v') # addProp k v kvs))"

definition setProp :: "string \<Rightarrow> json \<Rightarrow> IDataObject \<Rightarrow> IDataObject" where
  "setProp k v kvs =
     (if k = ''__proto__'' then kvs
      else if k \<in> set (map fst kvs)
      then map (\<lambda>(k', v'). if k' = k then (k', v) else (k', v')) kvs
      else addProp k v kvs)"

subsection \<open>String helpers: \<open>trim\<close>, \<open>split('.')\<close>\<close>

definition isWhiteSpace :: "char \<Rightarrow> bool" where
  "isWhiteSpace c \<longleftrightarrow>
     c \<in> set [CHR 0x09, CHR 0x0A, CHR 0x0B, CHR 0x0C, CHR 0x0D, CHR '' '', CHR 0xA0]"

definition trim :: "string \<Rightarrow> string" where
  "trim s = rev (dropWhile isWhiteSpace (rev (dropWhile isWhiteSpace s)))"

fun split_dot :: "string \<Rightarrow> string list" where
  "split_dot [] = [[]]"
| "split_dot (c # cs) =
     (if c = CHR ''.'' then [] # split_dot cs
      else (case split_dot cs of [] \<Rightarrow> [[c]] | s # ss \<Rightarrow> (c # s) # ss))"

section \<open>The node's parameters\<close>

record Options =
  disableDotNotation :: "bool option"
  handleMissingValues :: "string option"
  sortGroups :: "string option"
  includeItemCount :: "bool option"
  itemCountFieldName :: "string option"

record Parameters =
  fieldToGroupBy :: string
  outputFieldName :: string
  includeGroupKey :: bool
  options :: Options

text \<open>
  The locals of \<open>execute\<close>: the field is trimmed, and an option that is unset (or falsy:
  \<open>false\<close>, the empty string) falls back to its default through \<open>||\<close>.
\<close>

definition fieldToGroupBy_local :: "Parameters \<Rightarrow> string" where
  "fieldToGroupBy_local p = trim (fieldToGroupBy p)"

definition disableDotNotation_local :: "Parameters \<Rightarrow> bool" where
  "disableDotNotation_local p =
     (case disableDotNotation (options p) of Some b \<Rightarrow> b | None \<Rightarrow> False)"

definition handleMissingValues_local :: "Parameters \<Rightarrow> string" where
  "handleMissingValues_local p =
     (case handleMissingValues (options p) of
        Some s \<Rightarrow> if s = [] then ''skip'' else s
      | None \<Rightarrow> ''skip'')"

definition sortGroups_local :: "Parameters \<Rightarrow> string" where
  "sortGroups_local p =
     (case sortGroups (options p) of
        Some s \<Rightarrow> if s = [] then ''none'' else s
      | None \<Rightarrow> ''none'')"

definition includeItemCount_local :: "Parameters \<Rightarrow> bool" where
  "includeItemCount_local p =
     (case includeItemCount (options p) of Some b \<Rightarrow> b | None \<Rightarrow> False)"

definition itemCountFieldName_local :: "Parameters \<Rightarrow> string" where
  "itemCountFieldName_local p =
     (case itemCountFieldName (options p) of
        Some s \<Rightarrow> if s = [] then ''itemCount'' else s
      | None \<Rightarrow> ''itemCount'')"

section \<open>Resolving the grouping field\<close>

text \<open>
  The earlier version of the node walks the path itself (\<open>getNestedValue\<close>).
  \<open>typeof value === 'object'\<close> holds of objects, of arrays and of prototype objects.
\<close>

fun isObject :: "host \<Rightarrow> jsvalue \<Rightarrow> bool" where
  "isObject h (Data (JObj kvs)) = True"
| "isObject h (Data (JArr xs)) = True"
| "isObject h (Host n) = hostIsObject h n"
| "isObject h _ = False"

fun walkKeys :: "host \<Rightarrow> jsvalue \<Rightarrow> string list \<Rightarrow> jsvalue" where
  "walkKeys h v [] = v"
| "walkKeys h v (key # keys) =
     (if v = Data JNull \<or> v = Undefined then Undefined
      else if isObject h v then walkKeys h (getProp h v key) keys
      else Undefined)"

definition getNestedValue :: "host \<Rightarrow> IDataObject \<Rightarrow> string \<Rightarrow> jsvalue" where
  "getNestedValue h obj path = walkKeys h (Data (JObj obj)) (split_dot path)"

text \<open>
  The current version calls \<open>get\<close> of lodash when dot notation is enabled, and reads the
  property named by the whole field otherwise.  lodash is a dependency, not part of the
  repository: in \<open>execute\<close> the function \<open>get\<close> is a parameter.
\<close>

type_synonym lodash_get = "IDataObject \<Rightarrow> string \<Rightarrow> jsvalue"

definition resolveGroupKey ::
  "host \<Rightarrow> lodash_get \<Rightarrow> Parameters \<Rightarrow> IDataObject \<Rightarrow> jsvalue" where
  "resolveGroupKey h get p item =
     (if \<not> disableDotNotation_local p then get item (fieldToGroupBy_local p)
      else getProp h (Data (JObj item)) (fieldToGroupBy_local p))"






section \<open>Grouping\<close>

text \<open>
  The \<open>switch\<close> on the missing-value policy: \<open>None\<close> is \<open>continue\<close> (the item is skipped),
  \<open>Some v\<close> the value that is converted to the key.  A policy string that is none of the four
  cases leaves the value as it is.
\<close>

definition applyMissingPolicy :: "string \<Rightarrow> jsvalue \<Rightarrow> jsvalue option" where
  "applyMissingPolicy policy groupKey =
     (if groupKey = Undefined \<or> groupKey = Data JNull then
        (if policy = ''skip'' then None
         else if policy = ''groupUndefined'' then Some (Data (JStr ''undefined''))
         else if policy = ''groupNull'' then Some (Data (JStr ''null''))
         else if policy = ''groupEmpty'' then Some (Data (JStr []))
         else Some groupKey)
      else Some groupKey)"

text \<open>
  \<open>grouped\<close> is a \<open>Map\<close>: its keys are distinct and iterate in insertion order.
  \<open>mapEnsure\<close> is \<open>if (!grouped.has(k)) grouped.set(k, [])\<close>, \<open>mapPush\<close> is
  \<open>grouped.get(k).push(item)\<close>.
\<close>

type_synonym grouped = "(string \<times> IDataObject list) list"

definition mapEnsure :: "string \<Rightarrow> grouped \<Rightarrow> grouped" where
  "mapEnsure keyString g = (if keyString \<in> set (map fst g) then g else g @ [(keyString, [])])"

definition mapPush :: "string \<Rightarrow> IDataObject \<Rightarrow> grouped \<Rightarrow> grouped" where
  "mapPush keyString item g =
     map (\<lambda>(k, members). if k = keyString then (k, members @ [item]) else (k, members)) g"

definition pushItem :: "string \<Rightarrow> IDataObject \<Rightarrow> grouped \<Rightarrow> grouped" where
  "pushItem keyString item g = mapPush keyString item (mapEnsure keyString g)"

definition groupedGet :: "grouped \<Rightarrow> string \<Rightarrow> IDataObject list" where
  "groupedGet g key = (case map_of g key of Some members \<Rightarrow> members | None \<Rightarrow> [])"

fun groupLoop ::
  "host \<Rightarrow> lodash_get \<Rightarrow> Parameters \<Rightarrow> IDataObject list \<Rightarrow> grouped \<times> bool list
     \<Rightarrow> error + (grouped \<times> bool list)" where
  "groupLoop h get p [] st = Inr st"
| "groupLoop h get p (item # rest) (g, fieldFoundInItems) =
     (let groupKey = resolveGroupKey h get p item;
          found = fieldFoundInItems @ [groupKey \<noteq> Undefined]
      in case applyMissingPolicy (handleMissingValues_local p) groupKey of
           None \<Rightarrow> groupLoop h get p rest (g, found)
         | Some v \<Rightarrow>
             (case String_js h v of
                Inl e \<Rightarrow> Inl e
              | Inr keyString \<Rightarrow> groupLoop h get p rest (pushItem keyString item g, found)))"

section \<open>Ordering the groups\<close>

text \<open>
  \<open>Array.prototype.sort\<close> with a comparator is stable: an element goes before another when
  the comparator is negative, after it when positive, and two elements that compare equal
  keep their order.  \<open>localeCompare\<close> is the host's collation, a parameter of the model.
\<close>

type_synonym collation = "string \<Rightarrow> string \<Rightarrow> int"

fun insertSorted :: "('a \<Rightarrow> 'a \<Rightarrow> int) \<Rightarrow> 'a \<Rightarrow> 'a list \<Rightarrow> 'a list" where
  "insertSorted cmp x [] = [x]"
| "insertSorted cmp x (y # ys) =
     (if cmp x y \<le> 0 then x # y # ys else y # insertSorted cmp x ys)"

definition arraySort :: "('a \<Rightarrow> 'a \<Rightarrow> int) \<Rightarrow> 'a list \<Rightarrow> 'a list" where
  "arraySort cmp xs = foldr (insertSorted cmp) xs []"

definition sortGroupKeys :: "collation \<Rightarrow> string \<Rightarrow> string list \<Rightarrow> string list" where
  "sortGroupKeys localeCompare mode groupKeys =
     (if mode = ''asc'' then arraySort (\<lambda>a b. localeCompare a b) groupKeys
      else if mode = ''desc'' then arraySort (\<lambda>a b. localeCompare b a) groupKeys
      else groupKeys)"

section \<open>Building the output\<close>

text \<open>
  \<open>groupItems.length\<close> is below \<open>2^32\<close> in JavaScript, so \<open>of_nat\<close> does not wrap.
\<close>

record INodeExecutionData =
  json :: IDataObject
  pairedItem :: "nat list"

record hint =
  message :: string
  location :: string

definition getOutputKeyName :: "Parameters \<Rightarrow> string" where
  "getOutputKeyName p =
     (if \<not> disableDotNotation_local p \<and> CHR ''.'' \<in> set (fieldToGroupBy_local p)
      then last (split_dot (fieldToGroupBy_local p))
      else fieldToGroupBy_local p)"

definition outputItem :: "Parameters \<Rightarrow> string \<times> IDataObject list \<Rightarrow> INodeExecutionData" where
  "outputItem p = (\<lambda>(key, groupItems).
     (let outputJson = [];
          outputJson = (if includeGroupKey p
                        then setProp (getOutputKeyName p) (JStr key) outputJson
                        else outputJson);
          outputJson = setProp (outputFieldName p) (JArr (map JObj groupItems)) outputJson;
          outputJson = (if includeItemCount_local p
                        then setProp (itemCountFieldName_local p)
                               (JNum (of_nat (length groupItems))) outputJson
                        else outputJson)
      in \<lparr>json = outputJson, pairedItem = [0..<length groupItems]\<rparr>))"

section \<open>Running the node\<close>

text \<open>
  The result of \<open>execute\<close> is the one output branch of the node with the hints it raised, or
  the error it threw.  \<open>emittedGroups\<close> is the list the final \<open>map\<close> runs over: each key of
  \<open>groupKeys\<close> with \<open>grouped.get(key)\<close>.
\<close>

definition missingFieldHint :: "Parameters \<Rightarrow> hint" where
  "missingFieldHint p =
     \<lparr>message = ''The field '' @ [CHR 0x27] @ fieldToGroupBy_local p @ [CHR 0x27]
                  @ '' wasn'' @ [CHR 0x27] @ ''t found in any input item'',
      location = ''outputPane''\<rparr>"

definition emittedGroups ::
  "collation \<Rightarrow> Parameters \<Rightarrow> grouped \<Rightarrow> (string \<times> IDataObject list) list" where
  "emittedGroups localeCompare p g =
     map (\<lambda>key. (key, groupedGet g key))
       (sortGroupKeys localeCompare (sortGroups_local p) (map fst g))"

definition execute ::
  "host \<Rightarrow> lodash_get \<Rightarrow> collation \<Rightarrow> Parameters \<Rightarrow> IDataObject list
     \<Rightarrow> error + (INodeExecutionData list \<times> hint list)" where
  "execute h get localeCompare p items =
     (if items = [] then Inr ([], [])
      else if fieldToGroupBy_local p = [] then
        Inl (NodeOperationError ''No field specified'' ''Please specify a field to group by'')
      else
        (case groupLoop h get p items ([], []) of
           Inl e \<Rightarrow> Inl e
         | Inr (g, fieldFoundInItems) \<Rightarrow>
             (let hints = (if list_all (\<lambda>found. \<not> found) fieldFoundInItems
                           then [missingFieldHint p] else [])
              in if g = [] then Inr ([], hints)
                 else Inr (map (outputItem p) (emittedGroups localeCompare p g), hints))))"

section \<open>Stand-ins to run the model with\<close>

text \<open>
  A collation to run the model with: code-unit order.  It stands in for the host's
  \<open>localeCompare\<close> in evaluations only.
\<close>

fun codeUnitCompare :: collation where
  "codeUnitCompare [] [] = 0"
| "codeUnitCompare [] (b # bs) = - 1"
| "codeUnitCompare (a # as) [] = 1"
| "codeUnitCompare (a # as) (b # bs) =
     (if (of_char a :: nat) < of_char b then - 1
      else if (of_char b :: nat) < of_char a then 1
      else codeUnitCompare as bs)"

text \<open>
  A host to run the model with.  Its prototype chain provides, on every value, the
  properties of the standard \<open>Object.prototype\<close>: eleven functions and the accessor
  \<open>__proto__\<close>, which gives the prototype object.  It leaves out what hosts provide in
  addition on arrays, strings and numbers, and it reads a path with a bracket as one key.
  It stands in for the host in evaluations only.
\<close>

definition objectPrototypeNames :: "string list" where
  "objectPrototypeNames =
     [''constructor'', ''__defineGetter__'', ''__defineSetter__'', ''hasOwnProperty'',
      ''__lookupGetter__'', ''__lookupSetter__'', ''isPrototypeOf'', ''propertyIsEnumerable'',
      ''toString'', ''valueOf'', ''__proto__'', ''toLocaleString'']"

definition plainHost :: host where
  "plainHost =
     \<lparr>inherited = (\<lambda>v key. if key \<in> set objectPrototypeNames then Some (Host key) else None),
      hostIsObject = (\<lambda>n. n = ''__proto__''),
      hostString = (\<lambda>n. if n = ''__proto__'' then ''[object Object]''
                         else ''function '' @ (if n = ''constructor'' then ''Object'' else n)
                              @ ''() { [native code] }''),
      bracketPath = (\<lambda>obj path. [path])\<rparr>"

section \<open>Defaults, and the notions the properties are stated with\<close>

text \<open>The defaults of the node description: no option set, output field \<open>items\<close>, group key included.\<close>

definition defaultOptions :: Options where
  "defaultOptions =
     \<lparr>disableDotNotation = None, handleMissingValues = None, sortGroups = None,
      includeItemCount = None, itemCountFieldName = None\<rparr>"

definition nodeParameters :: "string \<Rightarrow> Parameters" where
  "nodeParameters field =
     \<lparr>fieldToGroupBy = field, outputFieldName = ''items'', includeGroupKey = True,
      options = defaultOptions\<rparr>"

text \<open>
  What one pass of the loop body decides for an item: \<open>None\<close> when the item is skipped,
  \<open>Some (Inr k)\<close> when it is pushed to the group of key \<open>k\<close>, \<open>Some (Inl e)\<close> when the
  conversion throws.
\<close>

definition keyStringOf ::
  "host \<Rightarrow> lodash_get \<Rightarrow> Parameters \<Rightarrow> IDataObject \<Rightarrow> (error + string) option" where
  "keyStringOf h get p item =
     (case applyMissingPolicy (handleMissingValues_local p) (resolveGroupKey h get p item) of
        None \<Rightarrow> None
      | Some v \<Rightarrow> Some (String_js h v))"

definition notFound :: "jsvalue \<Rightarrow> bool" where
  "notFound v \<longleftrightarrow> v = Undefined \<or> v = Data JNull"

text \<open>First-seen order: every value once, at the place of its first occurrence.\<close>

fun firstSeen :: "'a list \<Rightarrow> 'a list" where
  "firstSeen [] = []"
| "firstSeen (x # xs) = x # removeAll x (firstSeen xs)"

text \<open>The keys of the items that are not skipped, in input order.\<close>

fun keySequence :: "host \<Rightarrow> lodash_get \<Rightarrow> Parameters \<Rightarrow> IDataObject list \<Rightarrow> string list" where
  "keySequence h get p [] = []"
| "keySequence h get p (item # rest) =
     (case keyStringOf h get p item of
        Some (Inr k) \<Rightarrow> k # keySequence h get p rest
      | _ \<Rightarrow> keySequence h get p rest)"

text \<open>The input records whose key string is \<open>k\<close>, in input order.\<close>

definition membersOf ::
  "host \<Rightarrow> lodash_get \<Rightarrow> Parameters \<Rightarrow> IDataObject list \<Rightarrow> string
     \<Rightarrow> IDataObject list" where
  "membersOf h get p items k = filter (\<lambda>r. keyStringOf h get p r = Some (Inr k)) items"

text \<open>The distinct keys in first-seen order, sorted as the sort mode asks.\<close>

definition emissionOrder ::
  "host \<Rightarrow> lodash_get \<Rightarrow> collation \<Rightarrow> Parameters \<Rightarrow> IDataObject list
     \<Rightarrow> string list" where
  "emissionOrder h get localeCompare p items =
     sortGroupKeys localeCompare (sortGroups_local p) (firstSeen (keySequence h get p items))"

text \<open>
  The groups in emission order, from the input alone: every key of the emission order with
  its members.  This is the list that the final \<open>map\<close> of \<open>execute\<close> runs over
  (\<open>emittedGroups_groupList\<close>).
\<close>

definition groupList ::
  "host \<Rightarrow> lodash_get \<Rightarrow> collation \<Rightarrow> Parameters \<Rightarrow> IDataObject list
     \<Rightarrow> (string \<times> IDataObject list) list" where
  "groupList h get localeCompare p items =
     map (\<lambda>k. (k, membersOf h get p items k)) (emissionOrder h get localeCompare p items)"

text \<open>Sample data: three records, the second without the field \<open>category\<close>.\<close>

definition apple :: IDataObject where
  "apple = [(''category'', JStr ''Fruit''), (''n'', JStr ''Apple'')]"

definition carrot :: IDataObject where
  "carrot = [(''n'', JStr ''Carrot'')]"

definition banana :: IDataObject where
  "banana = [(''category'', JStr ''Fruit''), (''n'', JStr ''Banana'')]"

definition withPolicy :: "string \<Rightarrow> Parameters \<Rightarrow> Parameters" where
  "withPolicy policy p = p\<lparr>options := (options p)\<lparr>handleMissingValues := Some policy\<rparr>\<rparr>"

definition withSort :: "string \<Rightarrow> Parameters \<Rightarrow> Parameters" where
  "withSort mode p = p\<lparr>options := (options p)\<lparr>sortGroups := Some mode\<rparr>\<rparr>"

definition withoutDotNotation :: "Parameters \<Rightarrow> Parameters" where
  "withoutDotNotation p = p\<lparr>options := (options p)\<lparr>disableDotNotation := Some True\<rparr>\<rparr>"

definition withCount :: "string \<Rightarrow> Parameters \<Rightarrow> Parameters" where
  "withCount name p =
     p\<lparr>options := (options p)\<lparr>includeItemCount := Some True, itemCountFieldName := Some name\<rparr>\<rparr>"

text \<open>
  A consistent comparator in the sense of ECMAScript, as far as sorting needs it: the sign
  flips when the arguments are swapped, and \<open>\<le>\<close> is transitive.  A list of keys is
  \<open>tieFree\<close> when the comparator returns 0 on no two different keys of the list.
\<close>

definition consistentComparator :: "collation \<Rightarrow> bool" where
  "consistentComparator cmp \<longleftrightarrow>
     (\<forall>a b. cmp a b < 0 \<longleftrightarrow> 0 < cmp b a) \<and>
     (\<forall>a b c. cmp a b \<le> 0 \<longrightarrow> cmp b c \<le> 0 \<longrightarrow> cmp a c \<le> 0)"

definition tieFree :: "collation \<Rightarrow> string list \<Rightarrow> bool" where
  "tieFree cmp ks \<longleftrightarrow> (\<forall>a\<in>set ks. \<forall>b\<in>set ks. cmp a b = 0 \<longrightarrow> a = b)"

text \<open>
  A collation with ties, to run the model with.  ECMAScript requires \<open>localeCompare\<close> to
  return 0 on distinguishable strings that are canonically equivalent, and Unicode collation
  gives the control characters no weight.  The stand-in ignores the code units below 9 and
  orders the rest by code unit.
\<close>

definition ignorable :: "char \<Rightarrow> bool" where
  "ignorable c \<longleftrightarrow> (of_char c :: nat) < 9"

definition controlIgnoringCompare :: collation where
  "controlIgnoringCompare a b =
     codeUnitCompare (filter (\<lambda>c. \<not> ignorable c) a) (filter (\<lambda>c. \<not> ignorable c) b)"

text \<open>
  Data whose conversion meets an object with a property of its own named \<open>toString\<close>:
  the object itself, or an element of an array, at any depth.
\<close>

fun shadowsToString :: "json \<Rightarrow> bool" where
  "shadowsToString (JObj kvs) = (''toString'' \<in> set (map fst kvs))"
| "shadowsToString (JArr xs) = list_ex shadowsToString xs"
| "shadowsToString _ = False"

text \<open>The strings joined with commas.\<close>

fun joinComma :: "string list \<Rightarrow> string" where
  "joinComma [] = []"
| "joinComma [s] = s"
| "joinComma (s # t # ts) = s @ '','' @ joinComma (t # ts)"

text \<open>Sample data: the number 5 and the string \<open>5\<close> in the same field.\<close>

definition five :: IDataObject where
  "five = [(''v'', JNum 5)]"

definition fiveText :: IDataObject where
  "fiveText = [(''v'', JStr ''5'')]"

text \<open>Sample data: two objects and an array in the same field.\<close>

definition boxA :: IDataObject where
  "boxA = [(''v'', JObj [(''x'', JNum 1)])]"

definition boxB :: IDataObject where
  "boxB = [(''v'', JObj [])]"

definition listA :: IDataObject where
  "listA = [(''v'', JArr [JNum 1, JNull, JStr ''b''])]"

text \<open>Sample data: nested records.\<close>

definition fromUSA :: IDataObject where
  "fromUSA = [(''id'', JNum 1), (''user'', JObj [(''country'', JStr ''USA'')])]"

definition fromUK :: IDataObject where
  "fromUK = [(''id'', JNum 2), (''user'', JObj [(''country'', JStr ''UK'')])]"


text \<open>The positions in the input of the records whose key string is \<open>k\<close>.\<close>

definition memberPositions ::
  "host \<Rightarrow> lodash_get \<Rightarrow> Parameters \<Rightarrow> IDataObject list \<Rightarrow> string \<Rightarrow> nat list" where
  "memberPositions h get p items k =
     filter (\<lambda>i. keyStringOf h get p (items ! i) = Some (Inr k)) [0..<length items]"

text \<open>The member list that an output record holds under the output field, if it holds one.\<close>

definition outputMembers :: "Parameters \<Rightarrow> INodeExecutionData \<Rightarrow> json list" where
  "outputMembers p out =
     (case map_of (json out) (outputFieldName p) of Some (JArr xs) \<Rightarrow> xs | _ \<Rightarrow> [])"

text \<open>The records that the missing-value policy does not drop.\<close>

definition keptItems ::
  "host \<Rightarrow> lodash_get \<Rightarrow> Parameters \<Rightarrow> IDataObject list \<Rightarrow> IDataObject list" where
  "keptItems h get p items =
     filter (\<lambda>r. \<not> (notFound (resolveGroupKey h get p r) \<and>
                       handleMissingValues_local p = ''skip'')) items"

section \<open>Facts about the group map\<close>

lemma map_fst_mapPush: "map fst (mapPush k r g) = map fst g"
  by (induction g) (auto simp: mapPush_def)

lemma map_fst_mapEnsure:
  "map fst (mapEnsure k g) = (if k \<in> set (map fst g) then map fst g else map fst g @ [k])"
  by (simp add: mapEnsure_def)

lemma map_fst_pushItem:
  "map fst (pushItem k r g) = (if k \<in> set (map fst g) then map fst g else map fst g @ [k])"
  by (simp add: pushItem_def map_fst_mapPush map_fst_mapEnsure)

lemma distinct_pushItem:
  "distinct (map fst g) \<Longrightarrow> distinct (map fst (pushItem k r g))"
  by (simp add: map_fst_pushItem)

lemma map_of_mapPush:
  "map_of (mapPush k r g) k'
     = (if k' = k then map_option (\<lambda>ms. ms @ [r]) (map_of g k') else map_of g k')"
  by (induction g) (auto simp: mapPush_def)

lemma map_of_mapEnsure:
  "map_of (mapEnsure k g) k' = (if k' = k \<and> k \<notin> set (map fst g) then Some [] else map_of g k')"
proof (cases "k \<in> set (map fst g)")
  case True
  then show ?thesis by (simp add: mapEnsure_def)
next
  case False
  then have n: "map_of g k = None" by (simp add: map_of_eq_None_iff)
  from False have e: "mapEnsure k g = g @ [(k, [])]" by (simp add: mapEnsure_def)
  from False n show ?thesis
    unfolding e by (simp add: map_add_def split: option.splits)
qed

lemma groupedGet_pushItem:
  "groupedGet (pushItem k r g) k' = (if k' = k then groupedGet g k @ [r] else groupedGet g k')"
proof (cases "k \<in> set (map fst g)")
  case True
  then have "map_of g k \<noteq> None" by (simp add: map_of_eq_None_iff)
  then obtain ms where "map_of g k = Some ms" by blast
  with True show ?thesis
    by (simp add: groupedGet_def pushItem_def map_of_mapPush map_of_mapEnsure)
next
  case False
  then have "map_of g k = None" by (simp add: map_of_eq_None_iff)
  with False show ?thesis
    by (simp add: groupedGet_def pushItem_def map_of_mapPush map_of_mapEnsure)
qed


section \<open>Facts about the grouping loop\<close>

lemma groupLoop_Cons:
  "groupLoop h get p (item # rest) (g, f) =
     (case keyStringOf h get p item of
        None \<Rightarrow> groupLoop h get p rest (g, f @ [resolveGroupKey h get p item \<noteq> Undefined])
      | Some (Inl e) \<Rightarrow> Inl e
      | Some (Inr k) \<Rightarrow>
          groupLoop h get p rest (pushItem k item g, f @ [resolveGroupKey h get p item \<noteq> Undefined]))"
  by (simp add: keyStringOf_def Let_def split: option.splits sum.splits)

declare groupLoop.simps(2) [simp del]

lemma groupLoop_distinct:
  "groupLoop h get p items (g, f) = Inr (g', f') \<Longrightarrow> distinct (map fst g) \<Longrightarrow> distinct (map fst g')"
proof (induction items arbitrary: g f)
  case Nil
  then show ?case by simp
next
  case (Cons item rest)
  then show ?case
    by (auto simp: groupLoop_Cons distinct_pushItem split: option.splits sum.splits)
qed

lemma groupLoop_found:
  "groupLoop h get p items (g, f) = Inr (g', f') \<Longrightarrow>
   f' = f @ map (\<lambda>r. resolveGroupKey h get p r \<noteq> Undefined) items"
proof (induction items arbitrary: g f)
  case Nil
  then show ?case by simp
next
  case (Cons item rest)
  from Cons.prems obtain g0 where
    "groupLoop h get p rest (g0, f @ [resolveGroupKey h get p item \<noteq> Undefined]) = Inr (g', f')"
    by (auto simp: groupLoop_Cons split: option.splits sum.splits)
  from Cons.IH [OF this] show ?case by simp
qed

lemma groupLoop_no_error:
  "groupLoop h get p items (g, f) = Inr (g', f') \<Longrightarrow> r \<in> set items \<Longrightarrow>
   keyStringOf h get p r \<noteq> Some (Inl e)"
proof (induction items arbitrary: g f)
  case Nil
  then show ?case by simp
next
  case (Cons item rest)
  then show ?case
    by (auto simp: groupLoop_Cons split: option.splits sum.splits)
qed

lemma groupLoop_total:
  "(\<And>r e. r \<in> set items \<Longrightarrow> keyStringOf h get p r \<noteq> Some (Inl e)) \<Longrightarrow>
   \<exists>st. groupLoop h get p items (g, f) = Inr st"
proof (induction items arbitrary: g f)
  case Nil
  then show ?case by simp
next
  case (Cons item rest)
  have ih: "\<exists>st. groupLoop h get p rest (g', f') = Inr st" for g' f'
    using Cons.prems by (intro Cons.IH) auto
  have ne: "keyStringOf h get p item \<noteq> Some (Inl e)" for e
    using Cons.prems by auto
  show ?case
    using ih ne by (auto simp: groupLoop_Cons split: option.splits sum.splits)
qed

lemma groupLoop_members:
  "groupLoop h get p items (g, f) = Inr (g', f') \<Longrightarrow>
   groupedGet g' k = groupedGet g k @ filter (\<lambda>r. keyStringOf h get p r = Some (Inr k)) items"
proof (induction items arbitrary: g f)
  case Nil
  then show ?case by simp
next
  case (Cons item rest)
  then show ?case
    by (auto simp: groupLoop_Cons groupedGet_pushItem split: option.splits sum.splits)
qed

lemma firstSeen_step:
  "(if k \<in> set acc then acc else acc @ [k])
     @ filter (\<lambda>x. x \<notin> set (if k \<in> set acc then acc else acc @ [k])) xs
   = acc @ filter (\<lambda>x. x \<notin> set acc) (k # removeAll k xs)"
  by (induction xs) auto

lemma groupLoop_keys:
  "groupLoop h get p items (g, f) = Inr (g', f') \<Longrightarrow>
   map fst g' = map fst g @ filter (\<lambda>k. k \<notin> set (map fst g)) (firstSeen (keySequence h get p items))"
proof (induction items arbitrary: g f)
  case Nil
  then show ?case by simp
next
  case (Cons item rest)
  show ?case
  proof (cases "keyStringOf h get p item")
    case None
    with Cons show ?thesis by (simp add: groupLoop_Cons)
  next
    case (Some a)
    show ?thesis
    proof (cases a)
      case (Inl e)
      with Some Cons.prems show ?thesis by (simp add: groupLoop_Cons)
    next
      case (Inr k)
      with Some Cons.prems have run: "groupLoop h get p rest (pushItem k item g, f @ [resolveGroupKey h get p item \<noteq> Undefined]) = Inr (g', f')"
        by (simp add: groupLoop_Cons)
      have "map fst g' = map fst (pushItem k item g) @
          filter (\<lambda>x. x \<notin> set (map fst (pushItem k item g))) (firstSeen (keySequence h get p rest))"
        by (rule Cons.IH [OF run])
      also have "\<dots> = map fst g @ filter (\<lambda>x. x \<notin> set (map fst g)) (k # removeAll k (firstSeen (keySequence h get p rest)))"
        unfolding map_fst_pushItem by (rule firstSeen_step)
      finally show ?thesis using Some Inr by simp
    qed
  qed
qed

section \<open>Facts about sorting\<close>

lemma mset_insertSorted: "mset (insertSorted cmp x xs) = add_mset x (mset xs)"
  by (induction xs) auto

lemma mset_arraySort: "mset (arraySort cmp xs) = mset xs"
  by (induction xs) (auto simp: arraySort_def mset_insertSorted)

lemma set_arraySort: "set (arraySort cmp xs) = set xs"
  by (rule mset_eq_setD) (rule mset_arraySort)

lemma distinct_arraySort: "distinct (arraySort cmp xs) = distinct xs"
  by (rule mset_eq_imp_distinct_iff) (rule mset_arraySort)

lemma sorted_insertSorted:
  assumes total: "\<And>a b. cmp a b \<le> 0 \<or> cmp b a \<le> 0"
    and trans: "\<And>a b c. cmp a b \<le> 0 \<Longrightarrow> cmp b c \<le> 0 \<Longrightarrow> cmp a c \<le> 0"
  shows "sorted_wrt (\<lambda>a b. cmp a b \<le> 0) xs \<Longrightarrow> sorted_wrt (\<lambda>a b. cmp a b \<le> 0) (insertSorted cmp x xs)"
proof (induction xs)
  case Nil
  then show ?case by simp
next
  case (Cons y ys)
  show ?case
  proof (cases "cmp x y \<le> 0")
    case True
    have "cmp x z \<le> 0" if "z \<in> set ys" for z
      using True Cons.prems that trans by auto
    with True Cons.prems show ?thesis by simp
  next
    case False
    with total have yx: "cmp y x \<le> 0" by blast
    have "set (insertSorted cmp x ys) = insert x (set ys)"
      using mset_insertSorted [of cmp x ys] by (metis set_mset_add_mset_insert set_mset_mset)
    with False yx Cons show ?thesis by simp
  qed
qed

lemma sorted_arraySort:
  assumes total: "\<And>a b. cmp a b \<le> 0 \<or> cmp b a \<le> 0"
    and trans: "\<And>a b c. cmp a b \<le> 0 \<Longrightarrow> cmp b c \<le> 0 \<Longrightarrow> cmp a c \<le> 0"
  shows "sorted_wrt (\<lambda>a b. cmp a b \<le> 0) (arraySort cmp xs)"
proof (induction xs)
  case Nil
  then show ?case by (simp add: arraySort_def)
next
  case (Cons x xs)
  have "arraySort cmp (x # xs) = insertSorted cmp x (arraySort cmp xs)"
    by (simp add: arraySort_def)
  with Cons sorted_insertSorted [of cmp, OF total trans] show ?case by simp
qed

lemma sorted_wrt_unique:
  assumes antisym: "\<And>a b. a \<in> set xs \<Longrightarrow> b \<in> set xs \<Longrightarrow> R a b \<Longrightarrow> R b a \<Longrightarrow> a = b"
  shows "sorted_wrt R xs \<Longrightarrow> sorted_wrt R ys \<Longrightarrow> distinct xs \<Longrightarrow> distinct ys \<Longrightarrow>
         set xs = set ys \<Longrightarrow> xs = ys"
  using antisym
proof (induction xs arbitrary: ys)
  case Nil
  then show ?case by simp
next
  case (Cons x xs)
  from Cons.prems obtain y ys' where ys: "ys = y # ys'" by (cases ys) auto
  have "x = y"
  proof (rule ccontr)
    assume ne: "x \<noteq> y"
    have "set (x # xs) = set (y # ys')" using Cons.prems(5) ys by simp
    with ne have x: "x \<in> set ys'" and y: "y \<in> set xs" by auto
    with Cons.prems(1,2) ys have "R y x" and "R x y" by auto
    moreover have "x \<in> set (x # xs)" "y \<in> set (x # xs)" using y by simp_all
    ultimately have "x = y" using Cons.prems(6) [of x y] by blast
    with ne show False by simp
  qed
  moreover from this Cons.prems(3,4,5) ys have "set xs = set ys'" by auto
  moreover from Cons.prems(1,2,3,4) ys
  have "sorted_wrt R xs" "sorted_wrt R ys'" "distinct xs" "distinct ys'"
    by auto
  moreover have "a = b" if "a \<in> set xs" "b \<in> set xs" "R a b" "R b a" for a b
    using that Cons.prems(6) [of a b] by simp
  ultimately show ?case using Cons.IH ys by blast
qed

lemma arraySort_desc_rev:
  assumes total: "\<And>a b. cmp a b \<le> 0 \<or> cmp b a \<le> 0"
    and trans: "\<And>a b c. cmp a b \<le> 0 \<Longrightarrow> cmp b c \<le> 0 \<Longrightarrow> cmp a c \<le> 0"
    and noties: "\<And>a b. a \<in> set xs \<Longrightarrow> b \<in> set xs \<Longrightarrow> cmp a b \<le> 0 \<Longrightarrow> cmp b a \<le> 0 \<Longrightarrow> a = b"
    and d: "distinct xs"
  shows "arraySort (\<lambda>a b. cmp b a) xs = rev (arraySort (\<lambda>a b. cmp a b) xs)"
proof -
  let ?R = "\<lambda>a b. cmp b a \<le> 0"
  have s1: "sorted_wrt ?R (arraySort (\<lambda>a b. cmp b a) xs)"
    by (rule sorted_arraySort [of "\<lambda>a b. cmp b a"]) (use total trans in blast)+
  have "sorted_wrt (\<lambda>a b. cmp a b \<le> 0) (arraySort (\<lambda>a b. cmp a b) xs)"
    by (rule sorted_arraySort [of "\<lambda>a b. cmp a b"]) (use total trans in blast)+
  then have s2: "sorted_wrt ?R (rev (arraySort (\<lambda>a b. cmp a b) xs))"
    by (simp add: sorted_wrt_rev)
  show ?thesis
  proof (rule sorted_wrt_unique [of _ ?R, OF _ s1 s2])
    show "a = b"
      if "a \<in> set (arraySort (\<lambda>a b. cmp b a) xs)" "b \<in> set (arraySort (\<lambda>a b. cmp b a) xs)"
        "cmp b a \<le> 0" "cmp a b \<le> 0" for a b
      using that noties [of a b] by (simp add: set_arraySort)
  qed (simp_all add: distinct_arraySort set_arraySort d)
qed

text \<open>Code-unit order is a consistent comparator without ties.\<close>

lemma cuc_sym: "codeUnitCompare b a = - codeUnitCompare a b"
proof (induction a b rule: codeUnitCompare.induct)
  case (4 a as b bs)
  then show ?case by (cases "(of_char a :: nat) < of_char b"; cases "(of_char b :: nat) < of_char a") simp_all
qed simp_all

lemma cuc_zero: "codeUnitCompare a b = 0 \<Longrightarrow> a = b"
proof (induction a b rule: codeUnitCompare.induct)
  case (4 a as b bs)
  then have "(of_char a :: nat) = of_char b" and "codeUnitCompare as bs = 0"
    by (simp_all split: if_splits)
  with 4 show ?case by simp
qed simp_all

lemma cuc_Cons_le:
  "codeUnitCompare (a # as) (b # bs) \<le> 0 \<longleftrightarrow>
     (of_char a :: nat) < of_char b \<or> (a = b \<and> codeUnitCompare as bs \<le> 0)"
  by (cases "(of_char a :: nat) < of_char b"; cases "(of_char b :: nat) < of_char a") auto

lemma cuc_trans: "codeUnitCompare a b \<le> 0 \<Longrightarrow> codeUnitCompare b c \<le> 0 \<Longrightarrow> codeUnitCompare a c \<le> 0"
proof (induction a arbitrary: b c)
  case Nil
  then show ?case by (cases c) simp_all
next
  case (Cons x xs)
  from Cons.prems(1) obtain y ys where b: "b = y # ys" by (cases b) auto
  from Cons.prems(2) b obtain z zs where c: "c = z # zs" by (cases c) auto
  from Cons.prems b c have
    1: "(of_char x :: nat) < of_char y \<or> (x = y \<and> codeUnitCompare xs ys \<le> 0)" and
    2: "(of_char y :: nat) < of_char z \<or> (y = z \<and> codeUnitCompare ys zs \<le> 0)"
    by (simp_all only: cuc_Cons_le)
  have "(of_char x :: nat) < of_char z \<or> (x = z \<and> codeUnitCompare xs zs \<le> 0)"
    using 1 2 Cons.IH [of ys zs] by auto
  then show ?case unfolding c by (simp only: cuc_Cons_le)
qed

lemma cuc_total: "codeUnitCompare a b \<le> 0 \<or> codeUnitCompare b a \<le> 0"
  using cuc_sym [of a b] by linarith

lemma cuc_noties: "codeUnitCompare a b \<le> 0 \<Longrightarrow> codeUnitCompare b a \<le> 0 \<Longrightarrow> a = b"
  using cuc_sym [of a b] cuc_zero [of a b] by linarith

section \<open>What a successful run returns\<close>

lemma sortGroupKeys_Nil: "sortGroupKeys lc mode [] = []"
  by (simp add: sortGroupKeys_def arraySort_def)

lemma mset_sortGroupKeys: "mset (sortGroupKeys lc mode ks) = mset ks"
  by (simp add: sortGroupKeys_def mset_arraySort)

lemma set_sortGroupKeys: "set (sortGroupKeys lc mode ks) = set ks"
  by (rule mset_eq_setD) (rule mset_sortGroupKeys)

lemma distinct_sortGroupKeys: "distinct (sortGroupKeys lc mode ks) = distinct ks"
  by (rule mset_eq_imp_distinct_iff) (rule mset_sortGroupKeys)

lemma set_firstSeen: "set (firstSeen xs) = set xs"
  by (induction xs) auto

lemma distinct_firstSeen: "distinct (firstSeen xs)"
  by (induction xs) (auto simp: distinct_removeAll)

lemma set_keySequence:
  "set (keySequence h get p items) = {k. \<exists>r\<in>set items. keyStringOf h get p r = Some (Inr k)}"
  by (induction items) (auto split: option.splits sum.splits)

lemma groupLoop_start:
  assumes "groupLoop h get p items ([], []) = Inr (g, f)"
  shows "map fst g = firstSeen (keySequence h get p items)"
    and "groupedGet g k = membersOf h get p items k"
    and "f = map (\<lambda>r. resolveGroupKey h get p r \<noteq> Undefined) items"
  using groupLoop_keys [OF assms] groupLoop_members [OF assms, of k] groupLoop_found [OF assms]
  by (simp_all add: groupedGet_def membersOf_def)

lemma execute_Inr_loop:
  assumes "execute h get lc p items = Inr (out, hints)" and "items \<noteq> []"
  shows "fieldToGroupBy_local p \<noteq> []"
    and "\<exists>g f. groupLoop h get p items ([], []) = Inr (g, f)"
  using assms by (auto simp: execute_def split: if_splits sum.splits)

lemma execute_Inr_out:
  assumes "execute h get lc p items = Inr (out, hints)"
  shows "out = map (outputItem p)
           (map (\<lambda>k. (k, membersOf h get p items k)) (emissionOrder h get lc p items))"
proof (cases "items = []")
  case True
  with assms show ?thesis
    by (simp add: execute_def emissionOrder_def sortGroupKeys_Nil)
next
  case False
  with assms obtain g f where loop: "groupLoop h get p items ([], []) = Inr (g, f)"
    using execute_Inr_loop(2) by blast
  have keys: "map fst g = firstSeen (keySequence h get p items)"
    and mem: "\<And>k. groupedGet g k = membersOf h get p items k"
    using groupLoop_start [OF loop] by auto
  have eg: "emittedGroups lc p g = map (\<lambda>k. (k, membersOf h get p items k)) (emissionOrder h get lc p items)"
    by (simp add: emittedGroups_def emissionOrder_def keys mem)
  have "out = map (outputItem p) (emittedGroups lc p g)"
  proof (cases "g = []")
    case True
    with assms False loop have "out = []"
      by (simp add: execute_def Let_def split: if_splits)
    with True show ?thesis by (simp add: emittedGroups_def sortGroupKeys_Nil)
  next
    case g: False
    with assms False loop show ?thesis
      by (simp add: execute_def Let_def split: if_splits)
  qed
  with eg show ?thesis by simp
qed

lemma execute_Inr_hints:
  assumes "execute h get lc p items = Inr (out, hints)" and "items \<noteq> []"
  shows "hints = (if \<forall>r\<in>set items. resolveGroupKey h get p r = Undefined
                  then [missingFieldHint p] else [])"
proof -
  from assms obtain g f where loop: "groupLoop h get p items ([], []) = Inr (g, f)"
    using execute_Inr_loop(2) by blast
  have f: "f = map (\<lambda>r. resolveGroupKey h get p r \<noteq> Undefined) items"
    using groupLoop_start(3) [OF loop] .
  have "list_all (\<lambda>found. \<not> found) f \<longleftrightarrow> (\<forall>r\<in>set items. resolveGroupKey h get p r = Undefined)"
    by (simp add: f list_all_iff)
  with assms loop show ?thesis
    by (simp add: execute_def Let_def split: if_splits)
qed

lemma execute_Inr_no_error:
  assumes "execute h get lc p items = Inr (out, hints)" and "r \<in> set items"
  shows "keyStringOf h get p r \<noteq> Some (Inl e)"
proof -
  from assms have "items \<noteq> []" by auto
  with assms obtain g f where loop: "groupLoop h get p items ([], []) = Inr (g, f)"
    using execute_Inr_loop(2) by blast
  from groupLoop_no_error [OF loop assms(2)] show ?thesis .
qed

lemma execute_returns:
  assumes "fieldToGroupBy_local p \<noteq> []"
    and "\<And>r e. r \<in> set items \<Longrightarrow> keyStringOf h get p r \<noteq> Some (Inl e)"
  shows "\<exists>out hints. execute h get lc p items = Inr (out, hints)"
proof -
  obtain st where "groupLoop h get p items ([], []) = Inr st"
    using groupLoop_total [where items = items and h = h and get = get and p = p and g = "[]" and f = "[]"] assms(2)
    by blast
  then show ?thesis
    using assms(1) by (cases st) (simp add: execute_def Let_def)
qed

section \<open>Blank fields, and evaluation of the model\<close>

lemma trim_Nil_iff: "trim s = [] \<longleftrightarrow> list_all isWhiteSpace s"
proof -
  have "dropWhile isWhiteSpace (rev (dropWhile isWhiteSpace s)) = [] \<longleftrightarrow> dropWhile isWhiteSpace s = []"
  proof (cases "dropWhile isWhiteSpace s = []")
    case True
    show ?thesis unfolding True by simp
  next
    case False
    then have "\<not> isWhiteSpace (hd (dropWhile isWhiteSpace s))" by (rule hd_dropWhile)
    moreover from False have "hd (dropWhile isWhiteSpace s) \<in> set (dropWhile isWhiteSpace s)" by simp
    ultimately have "\<not> (\<forall>c\<in>set (rev (dropWhile isWhiteSpace s)). isWhiteSpace c)" by auto
    with False show ?thesis by (simp only: dropWhile_eq_Nil_conv) 
  qed
  then show ?thesis
    by (simp add: trim_def dropWhile_eq_Nil_conv list_all_iff)
qed

lemmas params_eval =
  nodeParameters_def defaultOptions_def fieldToGroupBy_local_def disableDotNotation_local_def
  handleMissingValues_local_def sortGroups_local_def includeItemCount_local_def
  itemCountFieldName_local_def trim_def isWhiteSpace_def withPolicy_def withSort_def
  withoutDotNotation_def

lemmas execute_eval =
  execute_def groupLoop.simps(2) resolveGroupKey_def applyMissingPolicy_def pushItem_def
  mapEnsure_def mapPush_def emittedGroups_def sortGroupKeys_def arraySort_def groupedGet_def
  outputItem_def getOutputKeyName_def missingFieldHint_def Let_def getNestedValue_def
  setProp_def arrayIndex_def isDigit_def fromPrototype_def plainHost_def
  objectPrototypeNames_def apple_def carrot_def banana_def

lemmas host_eval = fromPrototype_def plainHost_def objectPrototypeNames_def

section \<open>Facts about the list of groups\<close>

lemma execute_Inr_groupList:
  "execute h get lc p items = Inr (out, hints) \<Longrightarrow> out = map (outputItem p) (groupList h get lc p items)"
  unfolding groupList_def by (rule execute_Inr_out)

lemma map_fst_groupList: "map fst (groupList h get lc p items) = emissionOrder h get lc p items"
  by (simp add: groupList_def o_def)

lemma distinct_emissionOrder: "distinct (emissionOrder h get lc p items)"
  by (simp add: emissionOrder_def distinct_sortGroupKeys distinct_firstSeen)

lemma set_emissionOrder:
  "set (emissionOrder h get lc p items) = {k. \<exists>r\<in>set items. keyStringOf h get p r = Some (Inr k)}"
  by (simp add: emissionOrder_def set_sortGroupKeys set_firstSeen set_keySequence)

lemma in_groupList:
  "g \<in> set (groupList h get lc p items) \<longleftrightarrow>
     fst g \<in> set (emissionOrder h get lc p items) \<and> snd g = membersOf h get p items (fst g)"
  by (cases g) (auto simp: groupList_def)

lemma in_membersOf:
  "r \<in> set (membersOf h get p items k) \<longleftrightarrow> r \<in> set items \<and> keyStringOf h get p r = Some (Inr k)"
  by (simp add: membersOf_def)

lemma keyStringOf_notFound:
  "notFound (resolveGroupKey h get p item) \<Longrightarrow>
   keyStringOf h get p item =
     (if handleMissingValues_local p = ''skip'' then None
      else if handleMissingValues_local p = ''groupUndefined'' then Some (Inr ''undefined'')
      else if handleMissingValues_local p = ''groupNull'' then Some (Inr ''null'')
      else if handleMissingValues_local p = ''groupEmpty'' then Some (Inr [])
      else Some (String_js h (resolveGroupKey h get p item)))"
  by (simp add: keyStringOf_def applyMissingPolicy_def notFound_def)

lemma keyStringOf_found:
  "\<not> notFound (resolveGroupKey h get p item) \<Longrightarrow>
   keyStringOf h get p item = Some (String_js h (resolveGroupKey h get p item))"
  by (simp add: keyStringOf_def applyMissingPolicy_def notFound_def)

lemma keyStringOf_None_iff:
  "keyStringOf h get p item = None \<longleftrightarrow>
     notFound (resolveGroupKey h get p item) \<and> handleMissingValues_local p = ''skip''"
  by (simp add: keyStringOf_def applyMissingPolicy_def notFound_def)

lemma item_group:
  assumes "item \<in> set items" and "keyStringOf h get p item = Some (Inr k)"
  shows "k \<in> set (map fst (groupList h get lc p items))"
    and "\<forall>g\<in>set (groupList h get lc p items). item \<in> set (snd g) \<longleftrightarrow> fst g = k"
  using assms by (auto simp: map_fst_groupList set_emissionOrder in_groupList in_membersOf)

lemma emittedGroups_groupList:
  assumes "groupLoop h get p items ([], []) = Inr (g, f)"
  shows "emittedGroups lc p g = groupList h get lc p items"
  using groupLoop_start(1,2) [OF assms]
  by (simp add: emittedGroups_def groupList_def emissionOrder_def)

lemmas groups_eval = groupList_def emissionOrder_def membersOf_def keyStringOf_def

section \<open>The groups partition the records that are kept\<close>

lemma mset_filter_disjoint:
  "(\<And>x. x \<in> set xs \<Longrightarrow> \<not> (P x \<and> Q x)) \<Longrightarrow>
   mset (filter (\<lambda>x. P x \<or> Q x) xs) = mset (filter P xs) + mset (filter Q xs)"
  by (induction xs) auto

lemma mset_concat_filters:
  "distinct ks \<Longrightarrow>
   mset (concat (map (\<lambda>k. filter (\<lambda>r. f r = Some (Inr k)) items) ks)) =
     mset (filter (\<lambda>r. \<exists>k\<in>set ks. f r = Some (Inr k)) items)"
proof (induction ks)
  case Nil
  then show ?case by simp
next
  case (Cons k ks)
  have "mset (filter (\<lambda>r. f r = Some (Inr k) \<or> (\<exists>k'\<in>set ks. f r = Some (Inr k'))) items) =
        mset (filter (\<lambda>r. f r = Some (Inr k)) items) +
        mset (filter (\<lambda>r. \<exists>k'\<in>set ks. f r = Some (Inr k')) items)"
    by (rule mset_filter_disjoint) (use Cons.prems in auto)
  with Cons show ?case by simp
qed

lemma mset_concat_groupList:
  assumes "\<And>r e. r \<in> set items \<Longrightarrow> keyStringOf h get p r \<noteq> Some (Inl e)"
  shows "mset (concat (map snd (groupList h get lc p items))) =
         mset (filter (\<lambda>r. keyStringOf h get p r \<noteq> None) items)"
proof -
  have "concat (map snd (groupList h get lc p items)) =
        concat (map (\<lambda>k. filter (\<lambda>r. keyStringOf h get p r = Some (Inr k)) items)
                  (emissionOrder h get lc p items))"
    by (simp add: groupList_def membersOf_def o_def)
  also have "mset \<dots> = mset (filter (\<lambda>r. \<exists>k\<in>set (emissionOrder h get lc p items).
                                   keyStringOf h get p r = Some (Inr k)) items)"
    by (rule mset_concat_filters) (rule distinct_emissionOrder)
  also have "filter (\<lambda>r. \<exists>k\<in>set (emissionOrder h get lc p items).
                 keyStringOf h get p r = Some (Inr k)) items =
             filter (\<lambda>r. keyStringOf h get p r \<noteq> None) items"
  proof (rule filter_cong [OF refl])
    fix r assume r: "r \<in> set items"
    show "(\<exists>k\<in>set (emissionOrder h get lc p items). keyStringOf h get p r = Some (Inr k)) \<longleftrightarrow>
          keyStringOf h get p r \<noteq> None"
    proof (cases "keyStringOf h get p r")
      case None
      then show ?thesis by simp
    next
      case (Some a)
      with assms [OF r] obtain k where "a = Inr k" by (cases a) auto
      with Some r show ?thesis by (auto simp: set_emissionOrder)
    qed
  qed
  finally show ?thesis .
qed

section \<open>Comparators and the sort mode\<close>

lemma consistent_total: "consistentComparator cmp \<Longrightarrow> cmp a b \<le> 0 \<or> cmp b a \<le> 0"
  unfolding consistentComparator_def by (metis linorder_not_less order_less_imp_le)

lemma consistent_trans:
  "consistentComparator cmp \<Longrightarrow> cmp a b \<le> 0 \<Longrightarrow> cmp b c \<le> 0 \<Longrightarrow> cmp a c \<le> 0"
  unfolding consistentComparator_def by blast

lemma consistent_tie:
  assumes "consistentComparator cmp" and "cmp a b \<le> 0" and "cmp b a \<le> 0"
  shows "cmp a b = 0"
proof -
  have "\<not> cmp a b < 0"
    using assms(1,3) unfolding consistentComparator_def by (metis linorder_not_less)
  with assms(2) show ?thesis by simp
qed

lemma consistent_codeUnitCompare: "consistentComparator codeUnitCompare"
  unfolding consistentComparator_def
proof (intro conjI allI impI)
  fix a b show "codeUnitCompare a b < 0 \<longleftrightarrow> 0 < codeUnitCompare b a"
    using cuc_sym [of a b] by linarith
next
  fix a b c assume "codeUnitCompare a b \<le> 0" "codeUnitCompare b c \<le> 0"
  then show "codeUnitCompare a c \<le> 0" by (rule cuc_trans)
qed

lemma tieFree_codeUnitCompare: "tieFree codeUnitCompare ks"
  unfolding tieFree_def using cuc_zero by blast

lemma withSort_locals:
  "fieldToGroupBy_local (withSort m p) = fieldToGroupBy_local p"
  "disableDotNotation_local (withSort m p) = disableDotNotation_local p"
  "handleMissingValues_local (withSort m p) = handleMissingValues_local p"
  "includeItemCount_local (withSort m p) = includeItemCount_local p"
  "itemCountFieldName_local (withSort m p) = itemCountFieldName_local p"
  "includeGroupKey (withSort m p) = includeGroupKey p"
  "outputFieldName (withSort m p) = outputFieldName p"
  "sortGroups_local (withSort m p) = (if m = [] then ''none'' else m)"
  by (simp_all add: withSort_def fieldToGroupBy_local_def disableDotNotation_local_def
      handleMissingValues_local_def includeItemCount_local_def itemCountFieldName_local_def
      sortGroups_local_def)

lemma groupLoop_withSort: "groupLoop h get (withSort m p) items st = groupLoop h get p items st"
proof (induction items arbitrary: st)
  case Nil
  then show ?case by simp
next
  case (Cons item rest)
  obtain g f where st: "st = (g, f)" by (cases st)
  show ?case
    unfolding st
    by (simp add: groupLoop.simps(2) resolveGroupKey_def withSort_locals Cons.IH Let_def
        split: option.splits sum.splits)
qed

lemma outputItem_withSort: "outputItem (withSort m p) = outputItem p"
  unfolding outputItem_def getOutputKeyName_def withSort_locals by (rule refl)

lemma missingFieldHint_withSort: "missingFieldHint (withSort m p) = missingFieldHint p"
  by (simp add: missingFieldHint_def withSort_locals)

lemma execute_desc_rev_asc:
  assumes c: "consistentComparator lc" and n: "tieFree lc (keySequence h get p items)"
  shows "execute h get lc (withSort ''desc'' p) items =
     (case execute h get lc (withSort ''asc'' p) items of
        Inl e \<Rightarrow> Inl e
      | Inr (out, hints) \<Rightarrow> Inr (rev out, hints))"
proof (cases "groupLoop h get p items ([], [])")
  case (Inl e)
  then show ?thesis
    by (simp add: execute_def groupLoop_withSort withSort_locals)
next
  case (Inr st)
  obtain g f where st: "st = (g, f)" by (cases st)
  from Inr st have loop: "groupLoop h get p items ([], []) = Inr (g, f)" by simp
  have keys: "set (map fst g) = set (keySequence h get p items)"
    using groupLoop_start(1) [OF loop] by (simp only: set_firstSeen)
  have "distinct (map fst g)"
    using groupLoop_distinct [OF loop] by simp
  then have "arraySort (\<lambda>a b. lc b a) (map fst g) = rev (arraySort (\<lambda>a b. lc a b) (map fst g))"
  proof (rule arraySort_desc_rev [rotated 3])
    show "lc a b \<le> 0 \<or> lc b a \<le> 0" for a b
      using c by (rule consistent_total)
    show "lc a c \<le> 0" if "lc a b \<le> 0" "lc b c \<le> 0" for a b c
      using c that by (rule consistent_trans)
    show "a = b"
      if "a \<in> set (map fst g)" "b \<in> set (map fst g)" "lc a b \<le> 0" "lc b a \<le> 0" for a b
    proof -
      have "lc a b = 0" using c that(3,4) by (rule consistent_tie)
      with n that(1,2) show ?thesis unfolding tieFree_def keys by blast
    qed
  qed
  then have "emittedGroups lc (withSort ''desc'' p) g = rev (emittedGroups lc (withSort ''asc'' p) g)"
    by (simp add: emittedGroups_def sortGroupKeys_def withSort_locals rev_map)
  with loop show ?thesis
    by (simp add: execute_def groupLoop_withSort withSort_locals outputItem_withSort
        missingFieldHint_withSort Let_def rev_map)
qed

lemma consistent_controlIgnoringCompare: "consistentComparator controlIgnoringCompare"
  using consistent_codeUnitCompare
  unfolding consistentComparator_def controlIgnoringCompare_def by blast

lemma sorted_arraySort_asc:
  assumes "consistentComparator lc"
  shows "sorted_wrt (\<lambda>a b. lc a b \<le> 0) (arraySort (\<lambda>a b. lc a b) xs)"
proof (rule sorted_arraySort)
  show "lc a b \<le> 0 \<or> lc b a \<le> 0" for a b
    using assms by (rule consistent_total)
  show "lc a c \<le> 0" if "lc a b \<le> 0" "lc b c \<le> 0" for a b c
    using assms that by (rule consistent_trans)
qed

lemma sorted_arraySort_desc:
  assumes "consistentComparator lc"
  shows "sorted_wrt (\<lambda>a b. lc b a \<le> 0) (arraySort (\<lambda>a b. lc b a) xs)"
proof (rule sorted_arraySort [of "\<lambda>a b. lc b a"])
  show "lc b a \<le> 0 \<or> lc a b \<le> 0" for a b
    using consistent_total [OF assms, of a b] by blast
  show "lc c a \<le> 0" if "lc b a \<le> 0" "lc c b \<le> 0" for a b c
    using assms that(2,1) by (rule consistent_trans)
qed

section \<open>Facts about the conversion to a string\<close>

lemma jsonString_cases:
  "(shadowsToString d \<longrightarrow> jsonString d = Inl TypeError) \<and>
   (\<not> shadowsToString d \<longrightarrow> (\<exists>s. jsonString d = Inr s))"
  and "(list_ex shadowsToString xs \<longrightarrow> joinString xs = Inl TypeError) \<and>
   (\<not> list_ex shadowsToString xs \<longrightarrow> (\<exists>s. joinString xs = Inr s))"
proof (induction d and xs rule: jsonString_joinString.induct)
  case (10 x xs)
  show ?case
  proof (cases "x = JNull \<or> x = JUndefined")
    case True
    then have "\<not> shadowsToString x" by auto
    with True 10 show ?thesis by (auto split: sum.splits)
  next
    case False
    with 10 show ?thesis by (auto split: sum.splits)
  qed
qed auto

lemma joinString_joinComma:
  "list_all2 (\<lambda>x s. if x = JNull \<or> x = JUndefined then s = [] else jsonString x = Inr s) xs ss \<Longrightarrow>
   joinString xs = Inr (joinComma ss)"
proof (induction xs ss rule: list_all2_induct)
  case Nil
  then show ?case by simp
next
  case (Cons x s xs ss)
  then show ?case
    by (cases ss) (auto split: if_splits)
qed

section \<open>Facts about array indices and dotted paths\<close>







lemma split_dot_nonempty: "split_dot s \<noteq> []"
  by (induction s) (auto split: list.splits)

lemma split_dot_no_dot: "CHR ''.'' \<notin> set s \<Longrightarrow> split_dot s = [s]"
  by (induction s) auto


lemma split_dot_snoc:
  "CHR ''.'' \<notin> set b \<Longrightarrow> split_dot (a @ CHR ''.'' # b) = split_dot a @ [b]"
proof (induction a)
  case Nil
  then show ?case by (simp add: split_dot_no_dot)
next
  case (Cons c a)
  obtain s ss where "split_dot a = s # ss"
    using split_dot_nonempty [of a] by (cases "split_dot a") auto
  with Cons show ?case by simp
qed

lemma last_split_dot:
  "CHR ''.'' \<notin> set b \<Longrightarrow> last (split_dot (a @ CHR ''.'' # b)) = b"
  by (simp add: split_dot_snoc)








section \<open>Facts about the output records\<close>

lemma map_of_replace:
  "map_of (map (\<lambda>(k', v'). if k' = k then (k', v) else (k', v')) al) k' =
     (if k' = k then map_option (\<lambda>_. v) (map_of al k') else map_of al k')"
  by (induction al) auto

lemma map_of_addProp: "map_of (addProp k v al) = (map_of al)(k \<mapsto> v)" if "k \<notin> set (map fst al)"
  using that by (induction al) (auto simp: fun_eq_iff split: option.splits)

lemma map_of_setProp:
  "k \<noteq> ''__proto__'' \<Longrightarrow> map_of (setProp k v al) = (map_of al)(k \<mapsto> v)"
proof (cases "k \<in> set (map fst al)")
  case True
  assume k: "k \<noteq> ''__proto__''"
  from True have "map_of al k \<noteq> None" by (simp add: map_of_eq_None_iff)
  then obtain w where "map_of al k = Some w" by blast
  with True k show ?thesis
    by (auto simp: setProp_def map_of_replace fun_eq_iff)
next
  case False
  assume "k \<noteq> ''__proto__''"
  with False show ?thesis by (simp add: setProp_def map_of_addProp)
qed

lemma setProp_proto: "setProp ''__proto__'' v al = al"
  by (simp add: setProp_def)

lemma json_outputItem_key:
  assumes "includeGroupKey p" and "getOutputKeyName p \<noteq> ''__proto__''"
    and "getOutputKeyName p \<noteq> outputFieldName p"
    and "includeItemCount_local p \<longrightarrow> getOutputKeyName p \<noteq> itemCountFieldName_local p"
  shows "map_of (json (outputItem p g)) (getOutputKeyName p) = Some (JStr (fst g))"
proof -
  have upd: "map_of (setProp k v al) (getOutputKeyName p) = map_of al (getOutputKeyName p)"
    if "k \<noteq> getOutputKeyName p" for k v al
    using that by (cases "k = ''__proto__''") (simp_all add: setProp_proto map_of_setProp)
  have key: "map_of (setProp (getOutputKeyName p) (JStr (fst g)) []) (getOutputKeyName p) =
      Some (JStr (fst g))"
    using assms(2) by (simp add: map_of_setProp)
  show ?thesis
    using assms(1,3,4) key
    by (cases g) (auto simp: outputItem_def Let_def upd)
qed

lemma json_outputItem_members:
  assumes "outputFieldName p \<noteq> ''__proto__''"
    and "includeItemCount_local p \<longrightarrow> itemCountFieldName_local p \<noteq> outputFieldName p"
  shows "map_of (json (outputItem p g)) (outputFieldName p) = Some (JArr (map JObj (snd g)))"
proof -
  have upd: "map_of (setProp k v al) (outputFieldName p) = map_of al (outputFieldName p)"
    if "k \<noteq> outputFieldName p" for k v al
    using that by (cases "k = ''__proto__''") (simp_all add: setProp_proto map_of_setProp)
  have mem: "map_of (setProp (outputFieldName p) v al) (outputFieldName p) = Some v" for v al
    using assms(1) by (simp add: map_of_setProp)
  show ?thesis
    using assms(2) by (cases g) (auto simp: outputItem_def Let_def upd mem)
qed

lemma json_outputItem_proto: "map_of (json (outputItem p g)) ''__proto__'' = None"
proof -
  have upd: "map_of (setProp k v al) ''__proto__'' = map_of al ''__proto__''" for k v al
    by (cases "k = ''__proto__''") (simp_all add: setProp_proto map_of_setProp)
  show ?thesis
    by (cases g) (simp add: outputItem_def Let_def upd)
qed

lemma outputMembers_outputItem:
  assumes "outputFieldName p \<noteq> ''__proto__''"
    and "includeItemCount_local p \<longrightarrow> itemCountFieldName_local p \<noteq> outputFieldName p"
  shows "outputMembers p (outputItem p g) = map JObj (snd g)"
  by (simp add: outputMembers_def json_outputItem_members [OF assms])

lemma mset_keptItems:
  assumes "\<And>r e. r \<in> set items \<Longrightarrow> keyStringOf h get p r \<noteq> Some (Inl e)"
  shows "mset (concat (map snd (groupList h get lc p items))) = mset (keptItems h get p items)"
  using mset_concat_groupList [where items = items and h = h and get = get and p = p and lc = lc, OF assms]
  by (simp add: keyStringOf_None_iff keptItems_def)

lemma concat_map_map: "concat (map (\<lambda>g. map f (snd g)) gs) = map f (concat (map snd gs))"
  by (induction gs) simp_all

section \<open>The properties\<close>

subsection \<open>C1: traceability of the output records\<close>

text \<open>
  C1 says that every output record carries a \<open>pairedItem\<close> association back to the original
  input positions of all the input records of its group.  The code builds the association as
  \<open>0, 1, ..., n - 1\<close> for a group of \<open>n\<close> members: positions inside the group, not in
  the input.  For the input \<open>[{c: "A"}, {c: "B"}]\<close> grouped by \<open>c\<close>, the group of \<open>B\<close>
  holds the input record at position 1 and is paired with position 0.
\<close>

theorem pairedItem_positions_in_group:
  "execute h get lc (withoutDotNotation (nodeParameters ''c''))
     [[(''c'', JStr ''A'')], [(''c'', JStr ''B'')]] =
   Inr ([\<lparr>json = [(''c'', JStr ''A''), (''items'', JArr [JObj [(''c'', JStr ''A'')]])],
           pairedItem = [0]\<rparr>,
         \<lparr>json = [(''c'', JStr ''B''), (''items'', JArr [JObj [(''c'', JStr ''B'')]])],
           pairedItem = [0]\<rparr>], []) \<and>
   memberPositions h get (withoutDotNotation (nodeParameters ''c''))
     [[(''c'', JStr ''A'')], [(''c'', JStr ''B'')]] ''B'' = [1]"
proof -
  have "[0..<length [[(''c'', JStr ''A'')], [(''c'', JStr ''B'')]]] = [0, Suc 0]"
    by (simp add: upt_rec)
  then show ?thesis
    by (simp add: params_eval execute_eval memberPositions_def keyStringOf_def)
qed

subsection \<open>C3: a blank grouping field\<close>

text \<open>
  C3 as stated: for every input sequence, the empty one included, a grouping field that is
  empty or blank after trimming makes the operation fail with a configuration error.  It fails
  on the empty input: the code returns the empty output before it reads the parameters.
\<close>

theorem blank_field_empty_input_counterexample:
  "execute plainHost (getNestedValue plainHost) codeUnitCompare (nodeParameters '' '') [] = Inr ([], [])"
  by (simp add: execute_def)

text \<open>
  C3 as amended: the empty input gives the empty output and no error, whatever the field;
  for every non-empty input, a grouping field that is empty or consists of white space only
  makes the operation fail with the error \<open>No field specified\<close> and its description.  The
  result does not depend on \<open>get\<close>: no record is read.
\<close>

theorem blank_field_configuration_error:
  "execute h get lc p [] = Inr ([], []) \<and>
   (items \<noteq> [] \<longrightarrow> list_all isWhiteSpace (fieldToGroupBy p) \<longrightarrow>
      execute h get lc p items =
        Inl (NodeOperationError ''No field specified'' ''Please specify a field to group by''))"
  by (simp add: execute_def fieldToGroupBy_local_def trim_Nil_iff)

theorem blank_field_configuration_error_witness:
  "execute plainHost (getNestedValue plainHost) codeUnitCompare (nodeParameters ''  '') [[(''a'', JNum 1)]] =
     Inl (NodeOperationError ''No field specified'' ''Please specify a field to group by'')"
  using blank_field_configuration_error
    [where h = plainHost and get = "getNestedValue plainHost" and lc = codeUnitCompare
       and p = "nodeParameters ''  ''" and items = "[[(''a'', JNum 1)]]"]
  by (simp add: nodeParameters_def isWhiteSpace_def)

subsection \<open>C2: the hint\<close>

text \<open>
  C2 as stated: the hint is raised if and only if the resolution yields not-found for every
  input record, where an absent key and an explicit \<open>null\<close> both count as not-found, so that a
  record whose value is \<open>null\<close> does not suppress the hint.  The code records a field as
  found when the value is not \<open>undefined\<close>: the one record \<open>{c: null}\<close> is not-found, and no
  hint is raised.
\<close>

theorem explicit_null_suppresses_hint_counterexample:
  "notFound (resolveGroupKey plainHost (getNestedValue plainHost) (withoutDotNotation (nodeParameters ''c''))
       [(''c'', JNull)]) \<and>
   execute plainHost (getNestedValue plainHost) codeUnitCompare (withoutDotNotation (nodeParameters ''c''))
       [[(''c'', JNull)]] = Inr ([], [])"
  by (simp add: notFound_def params_eval execute_eval)

text \<open>
  C2 as amended: for every non-empty input on which the operation returns, the hint is raised
  if and only if the lookup yields \<open>undefined\<close> (the field is absent) for every input
  record; a record whose value is an explicit \<open>null\<close> counts as found and suppresses the
  hint.  The empty input returns before the hint is considered.
\<close>

theorem hint_iff_field_undefined_everywhere:
  assumes "execute h get lc p items = Inr (out, hints)" and "items \<noteq> []"
  shows "hints = (if list_all (\<lambda>r. resolveGroupKey h get p r = Undefined) items
                  then [missingFieldHint p] else [])"
  using execute_Inr_hints [OF assms] by (simp add: list_all_iff)

theorem hint_iff_field_undefined_everywhere_witness:
  "execute plainHost (getNestedValue plainHost) codeUnitCompare (nodeParameters ''category'') [carrot] =
     Inr ([], [missingFieldHint (nodeParameters ''category'')]) \<and>
   list_all (\<lambda>r. resolveGroupKey plainHost (getNestedValue plainHost) (nodeParameters ''category'') r = Undefined)
     [carrot]"
proof -
  have run: "execute plainHost (getNestedValue plainHost) codeUnitCompare (nodeParameters ''category'') [carrot] =
     Inr ([], [missingFieldHint (nodeParameters ''category'')])"
    by (simp add: params_eval execute_eval)
  have ne: "[carrot] \<noteq> []" by simp
  from hint_iff_field_undefined_everywhere [OF run ne] run show ?thesis
    by (simp split: if_splits)
qed

subsection \<open>C6: the missing-value policy\<close>

text \<open>
  C6: a record whose resolution yields not-found (\<open>undefined\<close> or \<open>null\<close>) is treated by the
  configured policy.  With \<open>skip\<close> it is in no group; with \<open>groupUndefined\<close>, \<open>groupNull\<close>
  and \<open>groupEmpty\<close> the group of key \<open>undefined\<close>, \<open>null\<close> and the empty string exists
  and is the one group that holds the record.  The groups are those the output records are
  built from.
\<close>

theorem missing_value_policy:
  assumes "execute h get lc p items = Inr (out, hints)"
    and "item \<in> set items"
    and "notFound (resolveGroupKey h get p item)"
  shows "(let gs = groupList h get lc p items in
     out = map (outputItem p) gs \<and> distinct (map fst gs) \<and>
     (handleMissingValues_local p = ''skip'' \<longrightarrow> (\<forall>g\<in>set gs. item \<notin> set (snd g))) \<and>
     (handleMissingValues_local p = ''groupUndefined'' \<longrightarrow>
        ''undefined'' \<in> set (map fst gs) \<and>
        (\<forall>g\<in>set gs. item \<in> set (snd g) \<longleftrightarrow> fst g = ''undefined'')) \<and>
     (handleMissingValues_local p = ''groupNull'' \<longrightarrow>
        ''null'' \<in> set (map fst gs) \<and>
        (\<forall>g\<in>set gs. item \<in> set (snd g) \<longleftrightarrow> fst g = ''null'')) \<and>
     (handleMissingValues_local p = ''groupEmpty'' \<longrightarrow>
        [] \<in> set (map fst gs) \<and>
        (\<forall>g\<in>set gs. item \<in> set (snd g) \<longleftrightarrow> fst g = [])))"
proof -
  let ?gs = "groupList h get lc p items"
  have out: "out = map (outputItem p) ?gs"
    using assms(1) by (rule execute_Inr_groupList)
  have d: "distinct (map fst ?gs)"
    by (simp only: map_fst_groupList distinct_emissionOrder)
  have skip: "\<forall>g\<in>set ?gs. item \<notin> set (snd g)" if "handleMissingValues_local p = ''skip''"
    using that assms(3) by (auto simp: in_groupList in_membersOf keyStringOf_notFound)
  have sub: "k \<in> set (map fst ?gs) \<and> (\<forall>g\<in>set ?gs. item \<in> set (snd g) \<longleftrightarrow> fst g = k)"
    if "keyStringOf h get p item = Some (Inr k)" for k
    using item_group [OF assms(2) that, where lc = lc] by blast
  have u: "''undefined'' \<in> set (map fst ?gs) \<and>
           (\<forall>g\<in>set ?gs. item \<in> set (snd g) \<longleftrightarrow> fst g = ''undefined'')"
    if "handleMissingValues_local p = ''groupUndefined''"
    by (rule sub) (simp add: keyStringOf_notFound [OF assms(3)] that)
  have n: "''null'' \<in> set (map fst ?gs) \<and>
           (\<forall>g\<in>set ?gs. item \<in> set (snd g) \<longleftrightarrow> fst g = ''null'')"
    if "handleMissingValues_local p = ''groupNull''"
    by (rule sub) (simp add: keyStringOf_notFound [OF assms(3)] that)
  have e: "[] \<in> set (map fst ?gs) \<and> (\<forall>g\<in>set ?gs. item \<in> set (snd g) \<longleftrightarrow> fst g = [])"
    if "handleMissingValues_local p = ''groupEmpty''"
    by (rule sub) (simp add: keyStringOf_notFound [OF assms(3)] that)
  from out d skip u n e show ?thesis unfolding Let_def by blast
qed

theorem missing_value_policy_witness:
  "execute plainHost (getNestedValue plainHost) codeUnitCompare (withPolicy ''groupNull'' (nodeParameters ''category''))
     [apple, carrot, banana] =
     Inr (map (outputItem (withPolicy ''groupNull'' (nodeParameters ''category'')))
            [(''Fruit'', [apple, banana]), (''null'', [carrot])], []) \<and>
   carrot \<in> set [apple, carrot, banana] \<and>
   notFound (resolveGroupKey plainHost (getNestedValue plainHost) (withPolicy ''groupNull'' (nodeParameters ''category''))
     carrot) \<and>
   handleMissingValues_local (withPolicy ''groupNull'' (nodeParameters ''category'')) =
     ''groupNull'' \<and>
   groupList plainHost (getNestedValue plainHost) codeUnitCompare (withPolicy ''groupNull'' (nodeParameters ''category''))
     [apple, carrot, banana] = [(''Fruit'', [apple, banana]), (''null'', [carrot])] \<and>
   ''null'' \<in> set (map fst (groupList plainHost (getNestedValue plainHost) codeUnitCompare
      (withPolicy ''groupNull'' (nodeParameters ''category'')) [apple, carrot, banana]))"
proof -
  let ?p = "withPolicy ''groupNull'' (nodeParameters ''category'')"
  let ?gs = "groupList plainHost (getNestedValue plainHost) codeUnitCompare ?p [apple, carrot, banana]"
  have run: "execute plainHost (getNestedValue plainHost) codeUnitCompare ?p [apple, carrot, banana] =
     Inr (map (outputItem ?p) [(''Fruit'', [apple, banana]), (''null'', [carrot])], [])"
    by (simp add: params_eval execute_eval)
  have mem: "carrot \<in> set [apple, carrot, banana]" by simp
  have nf: "notFound (resolveGroupKey plainHost (getNestedValue plainHost) ?p carrot)"
    by (simp add: notFound_def params_eval host_eval resolveGroupKey_def getNestedValue_def carrot_def)
  have pol: "handleMissingValues_local ?p = ''groupNull''"
    by (simp add: params_eval)
  have gs: "?gs = [(''Fruit'', [apple, banana]), (''null'', [carrot])]"
    by (simp add: groups_eval params_eval resolveGroupKey_def applyMissingPolicy_def
        sortGroupKeys_def getNestedValue_def host_eval apple_def carrot_def banana_def)
  from missing_value_policy [OF run mem nf] pol have "''null'' \<in> set (map fst ?gs)"
    unfolding Let_def by blast
  with run mem nf pol gs show ?thesis by (intro conjI)
qed

subsection \<open>C7: the member lists partition the records that are kept\<close>

text \<open>
  C7 as stated: for every input and configuration, the member lists of the output records,
  concatenated in emission order, are a permutation of the input records that the policy
  does not drop.  When the count is enabled and the count field has the name of the output
  field, the count is written after the member list and replaces it: the two records of
  \<open>Fruit\<close> give the one output record \<open>{category: "Fruit", items: 2}\<close>, which holds no
  member list.
\<close>

theorem count_field_replaces_members_counterexample:
  "execute plainHost (getNestedValue plainHost) codeUnitCompare
     (withCount ''items'' (withoutDotNotation (nodeParameters ''category''))) [apple, banana] =
     Inr ([\<lparr>json = [(''category'', JStr ''Fruit''), (''items'', JNum 2)],
            pairedItem = [0, 1]\<rparr>], []) \<and>
   outputMembers (withCount ''items'' (withoutDotNotation (nodeParameters ''category'')))
     \<lparr>json = [(''category'', JStr ''Fruit''), (''items'', JNum 2)], pairedItem = [0, 1]\<rparr> = []"
  by (simp add: params_eval execute_eval withCount_def outputMembers_def upt_rec)

text \<open>
  C7 as amended: whenever the operation returns, the output records are built, in emission
  order, from groups with distinct keys; the concatenation of the groups' member lists is a
  permutation of the input records that the policy does not drop (a record is dropped when
  its resolution yields not-found and the policy is \<open>skip\<close>); the members of a group are
  the input records of its key in their input order; and every record that is kept is in the
  member list of exactly one group.  When, moreover, the output field is not named
  \<open>__proto__\<close> and the count field, if enabled, does not have the output field's name,
  every output record holds the member list of its group under the output field: the member
  lists of the output records, concatenated in emission order, are a permutation of the
  records that are kept; the member list of the \<open>i\<close>-th output record is the input filtered
  by the \<open>i\<close>-th key, in input order; and every record that is kept is in the member list of
  exactly one output record.
\<close>

theorem groups_partition_kept_records:
  assumes "execute h get lc p items = Inr (out, hints)"
  shows "(let gs = groupList h get lc p items in
     out = map (outputItem p) gs \<and> distinct (map fst gs) \<and>
     mset (concat (map snd gs)) = mset (keptItems h get p items) \<and>
     (\<forall>g\<in>set gs. snd g = filter (\<lambda>r. keyStringOf h get p r = Some (Inr (fst g))) items) \<and>
     (\<forall>r\<in>set (keptItems h get p items). \<exists>!g. g \<in> set gs \<and> r \<in> set (snd g)) \<and>
     (outputFieldName p \<noteq> ''__proto__'' \<and>
      (includeItemCount_local p \<longrightarrow> itemCountFieldName_local p \<noteq> outputFieldName p) \<longrightarrow>
        map (\<lambda>outItem. map_of (json outItem) (outputFieldName p)) out =
          map (\<lambda>g. Some (JArr (map JObj (snd g)))) gs \<and>
        mset (concat (map (outputMembers p) out)) = mset (map JObj (keptItems h get p items)) \<and>
        (\<forall>i<length out. outputMembers p (out ! i) =
           map JObj (filter (\<lambda>r. keyStringOf h get p r =
                                   Some (Inr (emissionOrder h get lc p items ! i))) items)) \<and>
        (\<forall>r\<in>set (keptItems h get p items).
           \<exists>!i. i < length out \<and> JObj r \<in> set (outputMembers p (out ! i)))))"
proof -
  let ?gs = "groupList h get lc p items"
  let ?eo = "emissionOrder h get lc p items"
  have ne: "keyStringOf h get p r \<noteq> Some (Inl e)" if "r \<in> set items" for r e
    using assms that by (rule execute_Inr_no_error)
  have out: "out = map (outputItem p) ?gs"
    using assms by (rule execute_Inr_groupList)
  have d: "distinct (map fst ?gs)"
    by (simp only: map_fst_groupList distinct_emissionOrder)
  have m: "mset (concat (map snd ?gs)) = mset (keptItems h get p items)"
    using ne by (rule mset_keptItems)
  have f: "\<forall>g\<in>set ?gs. snd g = filter (\<lambda>r. keyStringOf h get p r = Some (Inr (fst g))) items"
    by (simp add: in_groupList membersOf_def)
  have key: "\<exists>k. keyStringOf h get p r = Some (Inr k) \<and> k \<in> set ?eo \<and> r \<in> set items"
    if "r \<in> set (keptItems h get p items)" for r
  proof -
    from that have r: "r \<in> set items" and "keyStringOf h get p r \<noteq> None"
      by (simp_all add: keptItems_def keyStringOf_None_iff)
    then obtain a where a: "keyStringOf h get p r = Some a" by blast
    with ne [OF r] obtain k where k: "keyStringOf h get p r = Some (Inr k)" by (cases a) auto
    with r show ?thesis by (auto simp: set_emissionOrder)
  qed
  have u: "\<exists>!g. g \<in> set ?gs \<and> r \<in> set (snd g)" if "r \<in> set (keptItems h get p items)" for r
  proof -
    from key [OF that] obtain k where k: "keyStringOf h get p r = Some (Inr k)"
      and in_k: "k \<in> set ?eo" and r: "r \<in> set items" by blast
    show ?thesis
    proof (rule ex1I [where a = "(k, membersOf h get p items k)"])
      show "(k, membersOf h get p items k) \<in> set ?gs \<and> r \<in> set (snd (k, membersOf h get p items k))"
        using in_k r k by (simp add: in_groupList in_membersOf)
    next
      fix g assume "g \<in> set ?gs \<and> r \<in> set (snd g)"
      then have "fst g = k" and "snd g = membersOf h get p items (fst g)"
        using k by (auto simp: in_groupList in_membersOf)
      then show "g = (k, membersOf h get p items k)" by (cases g) simp
    qed
  qed
  have held: "map (\<lambda>outItem. map_of (json outItem) (outputFieldName p)) out =
          map (\<lambda>g. Some (JArr (map JObj (snd g)))) ?gs \<and>
        mset (concat (map (outputMembers p) out)) = mset (map JObj (keptItems h get p items)) \<and>
        (\<forall>i<length out. outputMembers p (out ! i) =
           map JObj (filter (\<lambda>r. keyStringOf h get p r = Some (Inr (?eo ! i))) items)) \<and>
        (\<forall>r\<in>set (keptItems h get p items).
           \<exists>!i. i < length out \<and> JObj r \<in> set (outputMembers p (out ! i)))"
    if n1: "outputFieldName p \<noteq> ''__proto__''"
      and n2: "includeItemCount_local p \<longrightarrow> itemCountFieldName_local p \<noteq> outputFieldName p"
  proof -
    have len: "length out = length ?eo"
      by (simp add: out groupList_def)
    have fld: "map (\<lambda>outItem. map_of (json outItem) (outputFieldName p)) out =
          map (\<lambda>g. Some (JArr (map JObj (snd g)))) ?gs"
      by (simp add: out o_def json_outputItem_members [OF n1 n2])
    have "map (outputMembers p) out = map (\<lambda>g. map JObj (snd g)) ?gs"
      by (simp add: out o_def outputMembers_outputItem [OF n1 n2])
    then have "concat (map (outputMembers p) out) = map JObj (concat (map snd ?gs))"
      by (simp only: concat_map_map)
    then have ms: "mset (concat (map (outputMembers p) out)) =
        mset (map JObj (keptItems h get p items))"
      using m by simp
    have mem: "outputMembers p (out ! i) = map JObj (membersOf h get p items (?eo ! i))"
      if "i < length ?eo" for i
      using that by (simp add: out groupList_def outputMembers_outputItem [OF n1 n2])
    have nth: "\<forall>i<length out. outputMembers p (out ! i) =
           map JObj (filter (\<lambda>r. keyStringOf h get p r = Some (Inr (?eo ! i))) items)"
      using mem len by (simp add: membersOf_def)
    have one: "\<exists>!i. i < length out \<and> JObj r \<in> set (outputMembers p (out ! i))"
      if "r \<in> set (keptItems h get p items)" for r
    proof -
      from key [OF that] obtain k where k: "keyStringOf h get p r = Some (Inr k)"
        and in_k: "k \<in> set ?eo" and r: "r \<in> set items" by blast
      have iff: "JObj r \<in> set (outputMembers p (out ! j)) \<longleftrightarrow> ?eo ! j = k"
        if "j < length ?eo" for j
        using that r k by (auto simp: mem in_membersOf)
      from in_k obtain i where i: "i < length ?eo" "?eo ! i = k"
        by (auto simp: in_set_conv_nth)
      show ?thesis
      proof (rule ex1I [where a = i])
        show "i < length out \<and> JObj r \<in> set (outputMembers p (out ! i))"
          using i iff len by simp
      next
        fix j assume "j < length out \<and> JObj r \<in> set (outputMembers p (out ! j))"
        then have "j < length ?eo" "?eo ! j = k" using iff len by auto
        with i show "j = i"
          using distinct_emissionOrder [of h get lc p items] nth_eq_iff_index_eq [of ?eo j i]
          by simp
      qed
    qed
    from fld ms nth one show ?thesis by blast
  qed
  from out d m f u held show ?thesis unfolding Let_def by blast
qed

theorem groups_partition_kept_records_witness:
  "execute plainHost (getNestedValue plainHost) codeUnitCompare (nodeParameters ''category'')
     [apple, carrot, banana] =
     Inr (map (outputItem (nodeParameters ''category'')) [(''Fruit'', [apple, banana])], []) \<and>
   groupList plainHost (getNestedValue plainHost) codeUnitCompare (nodeParameters ''category'')
     [apple, carrot, banana] = [(''Fruit'', [apple, banana])] \<and>
   keptItems plainHost (getNestedValue plainHost) (nodeParameters ''category'')
     [apple, carrot, banana] = [apple, banana] \<and>
   outputFieldName (nodeParameters ''category'') \<noteq> ''__proto__'' \<and>
   \<not> includeItemCount_local (nodeParameters ''category'') \<and>
   mset (concat (map snd (groupList plainHost (getNestedValue plainHost) codeUnitCompare
      (nodeParameters ''category'') [apple, carrot, banana]))) = mset [apple, banana] \<and>
   map (\<lambda>outItem. map_of (json outItem) (outputFieldName (nodeParameters ''category'')))
     (map (outputItem (nodeParameters ''category'')) [(''Fruit'', [apple, banana])]) =
     [Some (JArr [JObj apple, JObj banana])] \<and>
   mset (concat (map (outputMembers (nodeParameters ''category''))
     (map (outputItem (nodeParameters ''category'')) [(''Fruit'', [apple, banana])]))) =
     mset [JObj apple, JObj banana]"
proof -
  let ?p = "nodeParameters ''category''"
  let ?gs = "groupList plainHost (getNestedValue plainHost) codeUnitCompare ?p [apple, carrot, banana]"
  let ?out = "map (outputItem ?p) [(''Fruit'', [apple, banana])]"
  have run: "execute plainHost (getNestedValue plainHost) codeUnitCompare ?p [apple, carrot, banana] =
     Inr (?out, [])"
    by (simp add: params_eval execute_eval)
  have kept: "keptItems plainHost (getNestedValue plainHost) ?p [apple, carrot, banana] =
              [apple, banana]"
    by (simp add: keptItems_def notFound_def params_eval host_eval resolveGroupKey_def getNestedValue_def
        apple_def carrot_def banana_def)
  have gs: "?gs = [(''Fruit'', [apple, banana])]"
    by (simp add: groups_eval params_eval resolveGroupKey_def applyMissingPolicy_def
        sortGroupKeys_def getNestedValue_def host_eval apple_def carrot_def banana_def)
  have n1: "outputFieldName ?p \<noteq> ''__proto__''"
    by (simp add: nodeParameters_def)
  have n2: "\<not> includeItemCount_local ?p"
    by (simp add: params_eval)
  note part = groups_partition_kept_records [OF run, unfolded Let_def]
  from part have "mset (concat (map snd ?gs)) =
      mset (keptItems plainHost (getNestedValue plainHost) ?p [apple, carrot, banana])"
    by blast
  then have m: "mset (concat (map snd ?gs)) = mset [apple, banana]"
    unfolding kept .
  from part n1 n2 have
    "map (\<lambda>outItem. map_of (json outItem) (outputFieldName ?p)) ?out =
       map (\<lambda>g. Some (JArr (map JObj (snd g)))) ?gs"
    by blast
  then have fld: "map (\<lambda>outItem. map_of (json outItem) (outputFieldName ?p)) ?out =
       [Some (JArr [JObj apple, JObj banana])]"
    unfolding gs by simp
  from part n1 n2 have
    "mset (concat (map (outputMembers ?p) ?out)) =
       mset (map JObj (keptItems plainHost (getNestedValue plainHost) ?p [apple, carrot, banana]))"
    by blast
  then have ms: "mset (concat (map (outputMembers ?p) ?out)) = mset [JObj apple, JObj banana]"
    unfolding kept by simp
  from run gs kept n1 n2 m fld ms show ?thesis by (intro conjI)
qed

subsection \<open>C5: the emission order\<close>

text \<open>
  C5 as stated: without sorting the groups come in first-seen order of their keys; with
  \<open>asc\<close> in ascending order under \<open>localeCompare\<close>; and with \<open>desc\<close> in exactly the
  reverse of the \<open>asc\<close> order.  The last part fails when the collation reports two different
  keys as equal: the sort is stable, so both modes leave such keys in first-seen order.  Under
  a collation that gives the control character U+0001 no weight, the keys \<open>a\<close> and
  U+0001 followed by \<open>a\<close> come out in the same order with \<open>asc\<close> and with \<open>desc\<close>.
\<close>

theorem descending_with_ties_counterexample:
  "consistentComparator controlIgnoringCompare \<and>
   execute plainHost (getNestedValue plainHost) controlIgnoringCompare (withSort ''asc'' (nodeParameters ''c''))
     [[(''c'', JStr ''a'')], [(''c'', JStr [CHR 0x01, CHR ''a''])]] =
     Inr (map (outputItem (nodeParameters ''c''))
            [(''a'', [[(''c'', JStr ''a'')]]),
             ([CHR 0x01, CHR ''a''], [[(''c'', JStr [CHR 0x01, CHR ''a''])]])], []) \<and>
   execute plainHost (getNestedValue plainHost) controlIgnoringCompare (withSort ''desc'' (nodeParameters ''c''))
     [[(''c'', JStr ''a'')], [(''c'', JStr [CHR 0x01, CHR ''a''])]] =
     Inr (map (outputItem (nodeParameters ''c''))
            [(''a'', [[(''c'', JStr ''a'')]]),
             ([CHR 0x01, CHR ''a''], [[(''c'', JStr [CHR 0x01, CHR ''a''])]])], [])"
  by (simp add: consistent_controlIgnoringCompare params_eval execute_eval
      controlIgnoringCompare_def ignorable_def)

text \<open>
  C5 as amended: whenever the operation returns, the keys of the groups are the distinct keys
  of the records that are kept; with a sort mode other than \<open>asc\<close> and \<open>desc\<close>
  (\<open>none\<close>) they come in first-seen order; with \<open>asc\<close> they are sorted ascending under
  \<open>localeCompare\<close> and with \<open>desc\<close> descending, for a consistent comparator; and the
  output with \<open>desc\<close> is exactly the reverse of the output with \<open>asc\<close> for the same input
  provided that \<open>localeCompare\<close> returns 0 on no two different keys of that input
  (\<open>tieFree\<close>); the comparator may report other strings as equal.
\<close>

theorem emission_order:
  "(execute h get lc p items = Inr (out, hints) \<longrightarrow>
      (let gs = groupList h get lc p items in
         out = map (outputItem p) gs \<and> distinct (map fst gs) \<and>
         mset (map fst gs) = mset (firstSeen (keySequence h get p items)) \<and>
         (sortGroups_local p \<noteq> ''asc'' \<and> sortGroups_local p \<noteq> ''desc'' \<longrightarrow>
            map fst gs = firstSeen (keySequence h get p items)) \<and>
         (sortGroups_local p = ''asc'' \<and> consistentComparator lc \<longrightarrow>
            sorted_wrt (\<lambda>a b. lc a b \<le> 0) (map fst gs)) \<and>
         (sortGroups_local p = ''desc'' \<and> consistentComparator lc \<longrightarrow>
            sorted_wrt (\<lambda>a b. lc b a \<le> 0) (map fst gs)))) \<and>
   (consistentComparator lc \<and> tieFree lc (keySequence h get p items) \<longrightarrow>
      execute h get lc (withSort ''desc'' p) items =
        (case execute h get lc (withSort ''asc'' p) items of
           Inl e \<Rightarrow> Inl e
         | Inr (out_asc, hints_asc) \<Rightarrow> Inr (rev out_asc, hints_asc)))"
proof (intro conjI impI)
  assume run: "execute h get lc p items = Inr (out, hints)"
  let ?gs = "groupList h get lc p items"
  let ?ks = "firstSeen (keySequence h get p items)"
  have keys: "map fst ?gs = sortGroupKeys lc (sortGroups_local p) ?ks"
    by (simp add: map_fst_groupList emissionOrder_def)
  have out: "out = map (outputItem p) ?gs"
    using run by (rule execute_Inr_groupList)
  have d: "distinct (map fst ?gs)"
    by (simp only: map_fst_groupList distinct_emissionOrder)
  have m: "mset (map fst ?gs) = mset ?ks"
    unfolding keys by (rule mset_sortGroupKeys)
  have none: "map fst ?gs = ?ks"
    if "sortGroups_local p \<noteq> ''asc'' \<and> sortGroups_local p \<noteq> ''desc''"
    using that unfolding keys by (simp add: sortGroupKeys_def)
  have asc: "sorted_wrt (\<lambda>a b. lc a b \<le> 0) (map fst ?gs)"
    if "sortGroups_local p = ''asc'' \<and> consistentComparator lc"
  proof -
    have "sorted_wrt (\<lambda>a b. lc a b \<le> 0) (arraySort (\<lambda>a b. lc a b) ?ks)"
      using that by (intro sorted_arraySort_asc) simp
    with that show ?thesis unfolding keys by (simp add: sortGroupKeys_def)
  qed
  have desc: "sorted_wrt (\<lambda>a b. lc b a \<le> 0) (map fst ?gs)"
    if "sortGroups_local p = ''desc'' \<and> consistentComparator lc"
  proof -
    have "sorted_wrt (\<lambda>a b. lc b a \<le> 0) (arraySort (\<lambda>a b. lc b a) ?ks)"
      using that by (intro sorted_arraySort_desc) simp
    with that show ?thesis unfolding keys by (simp add: sortGroupKeys_def)
  qed
  from out d m none asc desc
  show "let gs = groupList h get lc p items in
         out = map (outputItem p) gs \<and> distinct (map fst gs) \<and>
         mset (map fst gs) = mset (firstSeen (keySequence h get p items)) \<and>
         (sortGroups_local p \<noteq> ''asc'' \<and> sortGroups_local p \<noteq> ''desc'' \<longrightarrow>
            map fst gs = firstSeen (keySequence h get p items)) \<and>
         (sortGroups_local p = ''asc'' \<and> consistentComparator lc \<longrightarrow>
            sorted_wrt (\<lambda>a b. lc a b \<le> 0) (map fst gs)) \<and>
         (sortGroups_local p = ''desc'' \<and> consistentComparator lc \<longrightarrow>
            sorted_wrt (\<lambda>a b. lc b a \<le> 0) (map fst gs))"
    unfolding Let_def by blast
next
  assume "consistentComparator lc \<and> tieFree lc (keySequence h get p items)"
  then show "execute h get lc (withSort ''desc'' p) items =
        (case execute h get lc (withSort ''asc'' p) items of
           Inl e \<Rightarrow> Inl e
         | Inr (out_asc, hints_asc) \<Rightarrow> Inr (rev out_asc, hints_asc))"
    using execute_desc_rev_asc by blast
qed

theorem emission_order_witness:
  "consistentComparator controlIgnoringCompare \<and>
   tieFree controlIgnoringCompare
     (keySequence plainHost (getNestedValue plainHost) (nodeParameters ''n'')
        [carrot, banana, apple]) \<and>
   controlIgnoringCompare ''a'' [CHR 0x01, CHR ''a''] = 0 \<and>
   execute plainHost (getNestedValue plainHost) controlIgnoringCompare
     (withSort ''asc'' (nodeParameters ''n'')) [carrot, banana, apple] =
     Inr (map (outputItem (nodeParameters ''n''))
            [(''Apple'', [apple]), (''Banana'', [banana]), (''Carrot'', [carrot])], []) \<and>
   sortGroups_local (withSort ''asc'' (nodeParameters ''n'')) = ''asc'' \<and>
   sorted_wrt (\<lambda>a b. controlIgnoringCompare a b \<le> 0)
     (map fst (groupList plainHost (getNestedValue plainHost) controlIgnoringCompare
        (withSort ''asc'' (nodeParameters ''n'')) [carrot, banana, apple])) \<and>
   groupList plainHost (getNestedValue plainHost) controlIgnoringCompare
     (withSort ''asc'' (nodeParameters ''n'')) [carrot, banana, apple] =
     [(''Apple'', [apple]), (''Banana'', [banana]), (''Carrot'', [carrot])] \<and>
   execute plainHost (getNestedValue plainHost) controlIgnoringCompare
     (withSort ''desc'' (nodeParameters ''n'')) [carrot, banana, apple] =
     Inr (map (outputItem (nodeParameters ''n''))
            [(''Carrot'', [carrot]), (''Banana'', [banana]), (''Apple'', [apple])], [])"
proof -
  let ?asc = "withSort ''asc'' (nodeParameters ''n'')"
  let ?items = "[carrot, banana, apple]"
  let ?get = "getNestedValue plainHost"
  let ?lc = controlIgnoringCompare
  have asc: "execute plainHost ?get ?lc ?asc ?items =
     Inr (map (outputItem (nodeParameters ''n''))
            [(''Apple'', [apple]), (''Banana'', [banana]), (''Carrot'', [carrot])], [])"
    by (simp add: params_eval execute_eval controlIgnoringCompare_def ignorable_def)
  have mode: "sortGroups_local ?asc = ''asc''"
    by (simp add: params_eval)
  have gs: "groupList plainHost ?get ?lc ?asc ?items =
     [(''Apple'', [apple]), (''Banana'', [banana]), (''Carrot'', [carrot])]"
    by (simp add: groups_eval params_eval resolveGroupKey_def applyMissingPolicy_def
        sortGroupKeys_def arraySort_def getNestedValue_def host_eval apple_def carrot_def
        banana_def controlIgnoringCompare_def ignorable_def)
  have ks: "keySequence plainHost ?get (nodeParameters ''n'') ?items =
      [''Carrot'', ''Banana'', ''Apple'']"
    by (simp add: keyStringOf_def params_eval resolveGroupKey_def
        applyMissingPolicy_def getNestedValue_def host_eval apple_def carrot_def banana_def)
  have n: "tieFree ?lc (keySequence plainHost ?get (nodeParameters ''n'') ?items)"
    unfolding ks by (simp add: tieFree_def controlIgnoringCompare_def ignorable_def)
  have tie: "?lc ''a'' [CHR 0x01, CHR ''a''] = 0"
    by (simp add: controlIgnoringCompare_def ignorable_def)
  note c = consistent_controlIgnoringCompare
  from emission_order [where h = plainHost and get = ?get and lc = ?lc and p = ?asc
      and items = ?items] asc mode c
  have sorted: "sorted_wrt (\<lambda>a b. ?lc a b \<le> 0) (map fst (groupList plainHost ?get ?lc ?asc ?items))"
    unfolding Let_def by blast
  from emission_order [where h = plainHost and get = ?get and lc = ?lc
      and p = "nodeParameters ''n''" and items = ?items] c n
  have "execute plainHost ?get ?lc (withSort ''desc'' (nodeParameters ''n'')) ?items =
     (case execute plainHost ?get ?lc ?asc ?items of
        Inl e \<Rightarrow> Inl e
      | Inr (out_asc, hints_asc) \<Rightarrow> Inr (rev out_asc, hints_asc))"
    by blast
  with asc have desc: "execute plainHost ?get ?lc (withSort ''desc'' (nodeParameters ''n'')) ?items =
     Inr (map (outputItem (nodeParameters ''n''))
            [(''Carrot'', [carrot]), (''Banana'', [banana]), (''Apple'', [apple])], [])"
    by simp
  show ?thesis by (intro conjI c n tie asc mode sorted gs desc)
qed

subsection \<open>C8: key normalization\<close>

text \<open>
  C8 as stated: key normalization is a total string conversion, and two records whose
  resolved values convert to the same string are in the same single group; the number 5
  and the string \<open>5\<close> land in the same group.  The conversion is not total: a value that
  is an object with a property of its own named \<open>toString\<close> cannot be converted, and the
  operation fails with a \<open>TypeError\<close> on the record \<open>{a: {toString: 1}}\<close>.  Nor do equal
  conversions always share a group: \<open>null\<close> and the string \<open>null\<close> convert to the same
  string, but the policy treats the first as not-found, so that of the records \<open>{v: null}\<close>
  and \<open>{v: "null"}\<close> the first is dropped under \<open>skip\<close> and goes to the group
  \<open>undefined\<close> under \<open>groupUndefined\<close>.
\<close>

theorem shadowed_toString_counterexample:
  "execute plainHost (getNestedValue plainHost) codeUnitCompare
     (withoutDotNotation (nodeParameters ''a''))
     [[(''a'', JObj [(''toString'', JNum 1)])]] = Inl TypeError \<and>
   resolveGroupKey plainHost (getNestedValue plainHost)
     (withoutDotNotation (nodeParameters ''v'')) [(''v'', JNull)] = Data JNull \<and>
   resolveGroupKey plainHost (getNestedValue plainHost)
     (withoutDotNotation (nodeParameters ''v'')) [(''v'', JStr ''null'')] =
     Data (JStr ''null'') \<and>
   String_js plainHost (Data JNull) = String_js plainHost (Data (JStr ''null'')) \<and>
   execute plainHost (getNestedValue plainHost) codeUnitCompare
     (withoutDotNotation (nodeParameters ''v''))
     [[(''v'', JNull)], [(''v'', JStr ''null'')]] =
     Inr ([\<lparr>json = [(''v'', JStr ''null''),
                     (''items'', JArr [JObj [(''v'', JStr ''null'')]])],
            pairedItem = [0]\<rparr>], []) \<and>
   execute plainHost (getNestedValue plainHost) codeUnitCompare
     (withPolicy ''groupUndefined'' (withoutDotNotation (nodeParameters ''v'')))
     [[(''v'', JNull)], [(''v'', JStr ''null'')]] =
     Inr ([\<lparr>json = [(''v'', JStr ''undefined''), (''items'', JArr [JObj [(''v'', JNull)]])],
            pairedItem = [0]\<rparr>,
           \<lparr>json = [(''v'', JStr ''null''),
                     (''items'', JArr [JObj [(''v'', JStr ''null'')]])],
            pairedItem = [0]\<rparr>], [])"
  by (simp add: params_eval execute_eval)

text \<open>
  C8 as amended: key normalization is a function of the value; it returns a string for
  every value of the data (\<open>undefined\<close> included) that meets no object with a property of
  its own named \<open>toString\<close>, and throws a \<open>TypeError\<close> on the values that meet one; the
  number 5 and the string \<open>5\<close> convert to the same string; and whenever the operation
  returns, two input records whose resolved values are found (neither absent nor \<open>null\<close>)
  and convert to the same result are members of the same group, the one of that key string,
  and of no other.  More generally, two records that the policy keeps and whose keys, after
  the policy has replaced a not-found value by its text, convert to the same result are
  members of the same group, the one of that key string, and of no other.
\<close>

theorem key_normalization:
  "(\<not> shadowsToString d \<longrightarrow> (\<exists>s. String_js h (Data d) = Inr s)) \<and>
   (shadowsToString d \<longrightarrow> String_js h (Data d) = Inl TypeError) \<and>
   String_js h Undefined = Inr ''undefined'' \<and>
   String_js h (Data (JNum 5)) = String_js h (Data (JStr ''5'')) \<and>
   (execute h get lc p items = Inr (out, hints) \<longrightarrow>
    r1 \<in> set items \<longrightarrow> r2 \<in> set items \<longrightarrow>
    \<not> notFound (resolveGroupKey h get p r1) \<longrightarrow> \<not> notFound (resolveGroupKey h get p r2) \<longrightarrow>
    String_js h (resolveGroupKey h get p r1) = String_js h (resolveGroupKey h get p r2) \<longrightarrow>
      (let gs = groupList h get lc p items in
         out = map (outputItem p) gs \<and> distinct (map fst gs) \<and>
         (\<exists>k. String_js h (resolveGroupKey h get p r1) = Inr k \<and> k \<in> set (map fst gs) \<and>
            (\<forall>g\<in>set gs. (r1 \<in> set (snd g) \<longleftrightarrow> fst g = k) \<and>
                          (r2 \<in> set (snd g) \<longleftrightarrow> fst g = k))))) \<and>
   (execute h get lc p items = Inr (out, hints) \<longrightarrow>
    r1 \<in> set items \<longrightarrow> r2 \<in> set items \<longrightarrow>
    keyStringOf h get p r1 \<noteq> None \<longrightarrow> keyStringOf h get p r1 = keyStringOf h get p r2 \<longrightarrow>
      (let gs = groupList h get lc p items in
         out = map (outputItem p) gs \<and> distinct (map fst gs) \<and>
         (\<exists>k. keyStringOf h get p r1 = Some (Inr k) \<and> k \<in> set (map fst gs) \<and>
            (\<forall>g\<in>set gs. (r1 \<in> set (snd g) \<longleftrightarrow> fst g = k) \<and>
                          (r2 \<in> set (snd g) \<longleftrightarrow> fst g = k)))))"
proof -
  let ?gs = "groupList h get lc p items"
  have total: "\<exists>s. String_js h (Data d) = Inr s" if "\<not> shadowsToString d"
    using that jsonString_cases(1) [of d] by simp
  have throws: "String_js h (Data d) = Inl TypeError" if "shadowsToString d"
    using that jsonString_cases(1) [of d] by simp
  have undef: "String_js h Undefined = Inr ''undefined''"
    by simp
  have five: "String_js h (Data (JNum 5)) = String_js h (Data (JStr ''5''))"
    by (simp add: numberToString_def natToString.simps)
  have general: "let gs = groupList h get lc p items in
         out = map (outputItem p) gs \<and> distinct (map fst gs) \<and>
         (\<exists>k. keyStringOf h get p r1 = Some (Inr k) \<and> k \<in> set (map fst gs) \<and>
            (\<forall>g\<in>set gs. (r1 \<in> set (snd g) \<longleftrightarrow> fst g = k) \<and>
                          (r2 \<in> set (snd g) \<longleftrightarrow> fst g = k)))"
    if run: "execute h get lc p items = Inr (out, hints)"
      and r1: "r1 \<in> set items" and r2: "r2 \<in> set items"
      and kept: "keyStringOf h get p r1 \<noteq> None"
      and eq: "keyStringOf h get p r1 = keyStringOf h get p r2"
  proof -
    from kept obtain a where a: "keyStringOf h get p r1 = Some a" by blast
    with execute_Inr_no_error [OF run r1] obtain k where
      k1: "keyStringOf h get p r1 = Some (Inr k)" by (cases a) auto
    with eq have k2: "keyStringOf h get p r2 = Some (Inr k)" by simp
    have out: "out = map (outputItem p) ?gs"
      using run by (rule execute_Inr_groupList)
    have d: "distinct (map fst ?gs)"
      by (simp only: map_fst_groupList distinct_emissionOrder)
    have g1: "k \<in> set (map fst ?gs)"
      and g2: "\<forall>g\<in>set ?gs. r1 \<in> set (snd g) \<longleftrightarrow> fst g = k"
      using item_group [OF r1 k1, where lc = lc] by simp_all
    have g3: "\<forall>g\<in>set ?gs. r2 \<in> set (snd g) \<longleftrightarrow> fst g = k"
      using item_group(2) [OF r2 k2, where lc = lc] by simp
    from out d k1 g1 g2 g3 show ?thesis unfolding Let_def by blast
  qed
  have found: "let gs = groupList h get lc p items in
         out = map (outputItem p) gs \<and> distinct (map fst gs) \<and>
         (\<exists>k. String_js h (resolveGroupKey h get p r1) = Inr k \<and> k \<in> set (map fst gs) \<and>
            (\<forall>g\<in>set gs. (r1 \<in> set (snd g) \<longleftrightarrow> fst g = k) \<and>
                          (r2 \<in> set (snd g) \<longleftrightarrow> fst g = k)))"
    if run: "execute h get lc p items = Inr (out, hints)"
      and r1: "r1 \<in> set items" and r2: "r2 \<in> set items"
      and f1: "\<not> notFound (resolveGroupKey h get p r1)"
      and f2: "\<not> notFound (resolveGroupKey h get p r2)"
      and eq: "String_js h (resolveGroupKey h get p r1) = String_js h (resolveGroupKey h get p r2)"
  proof -
    have k1: "keyStringOf h get p r1 = Some (String_js h (resolveGroupKey h get p r1))"
      using f1 by (rule keyStringOf_found)
    have k2: "keyStringOf h get p r2 = Some (String_js h (resolveGroupKey h get p r1))"
      using keyStringOf_found [OF f2] eq by simp
    from general [OF run r1 r2] k1 k2 show ?thesis
      unfolding Let_def by auto
  qed
  from total throws undef five found general show ?thesis by blast
qed

theorem key_normalization_witness:
  "execute plainHost (getNestedValue plainHost) codeUnitCompare (nodeParameters ''v'')
     [five, fiveText] =
     Inr (map (outputItem (nodeParameters ''v'')) [(''5'', [five, fiveText])], []) \<and>
   resolveGroupKey plainHost (getNestedValue plainHost) (nodeParameters ''v'') five =
     Data (JNum 5) \<and>
   resolveGroupKey plainHost (getNestedValue plainHost) (nodeParameters ''v'') fiveText =
     Data (JStr ''5'') \<and>
   \<not> shadowsToString (JNum 5) \<and>
   String_js plainHost (Data (JNum 5)) = String_js plainHost (Data (JStr ''5'')) \<and>
   groupList plainHost (getNestedValue plainHost) codeUnitCompare (nodeParameters ''v'')
     [five, fiveText] = [(''5'', [five, fiveText])] \<and>
   (\<exists>k. String_js plainHost
          (resolveGroupKey plainHost (getNestedValue plainHost) (nodeParameters ''v'') five) =
          Inr k \<and>
      k \<in> set (map fst (groupList plainHost (getNestedValue plainHost) codeUnitCompare
                           (nodeParameters ''v'') [five, fiveText]))) \<and>
   (\<exists>k. keyStringOf plainHost (getNestedValue plainHost) (nodeParameters ''v'') five =
          Some (Inr k) \<and>
      k \<in> set (map fst (groupList plainHost (getNestedValue plainHost) codeUnitCompare
                           (nodeParameters ''v'') [five, fiveText])))"
proof -
  let ?p = "nodeParameters ''v''"
  let ?get = "getNestedValue plainHost"
  let ?gs = "groupList plainHost ?get codeUnitCompare ?p [five, fiveText]"
  have run: "execute plainHost ?get codeUnitCompare ?p [five, fiveText] =
     Inr (map (outputItem ?p) [(''5'', [five, fiveText])], [])"
    by (simp add: params_eval execute_eval five_def fiveText_def numberToString_def
        natToString.simps)
  have v1: "resolveGroupKey plainHost ?get ?p five = Data (JNum 5)"
    and v2: "resolveGroupKey plainHost ?get ?p fiveText = Data (JStr ''5'')"
    by (simp_all add: params_eval resolveGroupKey_def getNestedValue_def five_def fiveText_def)
  have m: "five \<in> set [five, fiveText]" "fiveText \<in> set [five, fiveText]" by simp_all
  have f: "\<not> notFound (resolveGroupKey plainHost ?get ?p five)"
    "\<not> notFound (resolveGroupKey plainHost ?get ?p fiveText)"
    by (simp_all add: v1 v2 notFound_def)
  have sh: "\<not> shadowsToString (JNum 5)" by simp
  have gs: "?gs = [(''5'', [five, fiveText])]"
    by (simp add: groups_eval params_eval resolveGroupKey_def applyMissingPolicy_def
        sortGroupKeys_def getNestedValue_def five_def fiveText_def numberToString_def
        natToString.simps)
  note t = key_normalization [where d = "JNum 5" and h = plainHost and get = ?get
      and lc = codeUnitCompare and p = ?p and items = "[five, fiveText]"
      and out = "map (outputItem ?p) [(''5'', [five, fiveText])]" and hints = "[]"
      and ?r1.0 = five and ?r2.0 = fiveText]
  from t have s: "String_js plainHost (Data (JNum 5)) = String_js plainHost (Data (JStr ''5''))"
    by blast
  then have e: "String_js plainHost (resolveGroupKey plainHost ?get ?p five) =
      String_js plainHost (resolveGroupKey plainHost ?get ?p fiveText)"
    unfolding v1 v2 .
  from t run m f e have k: "\<exists>k. String_js plainHost (resolveGroupKey plainHost ?get ?p five) = Inr k \<and>
      k \<in> set (map fst ?gs)"
    unfolding Let_def by blast
  have kept: "keyStringOf plainHost ?get ?p five \<noteq> None"
    using f(1) by (simp add: keyStringOf_None_iff)
  have ke: "keyStringOf plainHost ?get ?p five = keyStringOf plainHost ?get ?p fiveText"
    using e by (simp add: keyStringOf_found [OF f(1)] keyStringOf_found [OF f(2)])
  from t run m kept ke have k': "\<exists>k. keyStringOf plainHost ?get ?p five = Some (Inr k) \<and>
      k \<in> set (map fst ?gs)"
    unfolding Let_def by blast
  show ?thesis by (intro conjI run v1 v2 sh s gs k k')
qed

subsection \<open>C10: objects and arrays as grouping values\<close>

text \<open>
  C10 as stated: every record whose resolved value is a mapping normalizes to the key
  \<open>[object Object]\<close> whatever the mapping holds, so that all such records share one group;
  an array normalizes to the comma-joined string of its elements.  The first part fails for
  a mapping with a property of its own named \<open>toString\<close>: its conversion throws.
\<close>

theorem object_with_own_toString_counterexample:
  "String_js plainHost (Data (JObj [(''x'', JNum 1)])) = Inr ''[object Object]'' \<and>
   String_js plainHost (Data (JObj [(''toString'', JStr ''x'')])) = Inl TypeError"
  by simp

text \<open>
  C10 as amended: a mapping without a property of its own named \<open>toString\<close> normalizes to
  \<open>[object Object]\<close> whatever else it holds, and whenever the operation returns, all
  records whose resolved value is a mapping are members of the one group of that key; an
  array normalizes to the strings of its elements joined with commas, \<open>null\<close> and
  \<open>undefined\<close> elements giving the empty string, so that arrays with different contents
  can have different keys, as \<open>[1]\<close> and \<open>[2]\<close> do.
\<close>

theorem object_and_array_keys:
  "(''toString'' \<notin> set (map fst kvs) \<longrightarrow>
      String_js h (Data (JObj kvs)) = Inr ''[object Object]'') \<and>
   (list_all2 (\<lambda>x s. if notFound (Data x) then s = [] else String_js h (Data x) = Inr s) xs ss \<longrightarrow>
      String_js h (Data (JArr xs)) = Inr (joinComma ss)) \<and>
   String_js h (Data (JArr [JNum 1])) \<noteq> String_js h (Data (JArr [JNum 2])) \<and>
   (execute h get lc p items = Inr (out, hints) \<longrightarrow>
    r1 \<in> set items \<longrightarrow> r2 \<in> set items \<longrightarrow>
    resolveGroupKey h get p r1 = Data (JObj a) \<longrightarrow>
    resolveGroupKey h get p r2 = Data (JObj b) \<longrightarrow>
      (let gs = groupList h get lc p items in
         out = map (outputItem p) gs \<and> distinct (map fst gs) \<and>
         ''[object Object]'' \<in> set (map fst gs) \<and>
         (\<forall>g\<in>set gs. (r1 \<in> set (snd g) \<longleftrightarrow> fst g = ''[object Object]'') \<and>
                       (r2 \<in> set (snd g) \<longleftrightarrow> fst g = ''[object Object]''))))"
proof (intro conjI impI)
  show "String_js h (Data (JObj kvs)) = Inr ''[object Object]''"
    if "''toString'' \<notin> set (map fst kvs)"
    using that by simp
  show "String_js h (Data (JArr xs)) = Inr (joinComma ss)"
    if "list_all2 (\<lambda>x s. if notFound (Data x) then s = [] else String_js h (Data x) = Inr s) xs ss"
  proof -
    have "(\<lambda>x s. if notFound (Data x) then s = [] else String_js h (Data x) = Inr s) =
          (\<lambda>x s. if x = JNull \<or> x = JUndefined then s = [] else jsonString x = Inr s)"
      by (auto simp: notFound_def fun_eq_iff)
    with that show ?thesis
      using joinString_joinComma [of xs ss] by simp
  qed
  show "String_js h (Data (JArr [JNum 1])) \<noteq> String_js h (Data (JArr [JNum 2]))"
    by (simp add: numberToString_def natToString.simps)
next
  let ?gs = "groupList h get lc p items"
  assume run: "execute h get lc p items = Inr (out, hints)"
    and r1: "r1 \<in> set items" and r2: "r2 \<in> set items"
    and v1: "resolveGroupKey h get p r1 = Data (JObj a)"
    and v2: "resolveGroupKey h get p r2 = Data (JObj b)"
  have key: "keyStringOf h get p r = Some (Inr ''[object Object]'')"
    if r: "r \<in> set items" and v: "resolveGroupKey h get p r = Data (JObj c)" for r c
  proof -
    have "keyStringOf h get p r = Some (String_js h (Data (JObj c)))"
      using keyStringOf_found [where h = h and get = get and p = p and item = r] v
      by (simp add: notFound_def)
    moreover have "''toString'' \<notin> set (map fst c)"
    proof
      assume "''toString'' \<in> set (map fst c)"
      then have "String_js h (Data (JObj c)) = Inl TypeError" by simp
      with calculation execute_Inr_no_error [OF run r, where e = TypeError] show False by simp
    qed
    ultimately show ?thesis by simp
  qed
  have out: "out = map (outputItem p) ?gs"
    using run by (rule execute_Inr_groupList)
  have d: "distinct (map fst ?gs)"
    by (simp only: map_fst_groupList distinct_emissionOrder)
  from item_group [OF r1 key [OF r1 v1], where lc = lc]
    item_group [OF r2 key [OF r2 v2], where lc = lc] out d
  show "let gs = groupList h get lc p items in
         out = map (outputItem p) gs \<and> distinct (map fst gs) \<and>
         ''[object Object]'' \<in> set (map fst gs) \<and>
         (\<forall>g\<in>set gs. (r1 \<in> set (snd g) \<longleftrightarrow> fst g = ''[object Object]'') \<and>
                       (r2 \<in> set (snd g) \<longleftrightarrow> fst g = ''[object Object]''))"
    unfolding Let_def by blast
qed

theorem object_and_array_keys_witness:
  "execute plainHost (getNestedValue plainHost) codeUnitCompare (nodeParameters ''v'')
     [boxA, listA, boxB] =
     Inr (map (outputItem (nodeParameters ''v''))
            [(''[object Object]'', [boxA, boxB]), (''1,,b'', [listA])], []) \<and>
   resolveGroupKey plainHost (getNestedValue plainHost) (nodeParameters ''v'') boxA =
     Data (JObj [(''x'', JNum 1)]) \<and>
   resolveGroupKey plainHost (getNestedValue plainHost) (nodeParameters ''v'') boxB =
     Data (JObj []) \<and>
   String_js plainHost (Data (JObj [])) = Inr ''[object Object]'' \<and>
   String_js plainHost (Data (JArr [JNum 1, JNull, JStr ''b''])) =
     Inr (joinComma [''1'', [], ''b'']) \<and>
   groupList plainHost (getNestedValue plainHost) codeUnitCompare (nodeParameters ''v'')
     [boxA, listA, boxB] =
     [(''[object Object]'', [boxA, boxB]), (''1,,b'', [listA])] \<and>
   ''[object Object]'' \<in> set (map fst (groupList plainHost (getNestedValue plainHost)
      codeUnitCompare (nodeParameters ''v'') [boxA, listA, boxB]))"
proof -
  let ?p = "nodeParameters ''v''"
  let ?get = "getNestedValue plainHost"
  let ?items = "[boxA, listA, boxB]"
  let ?gs = "groupList plainHost ?get codeUnitCompare ?p ?items"
  have run: "execute plainHost ?get codeUnitCompare ?p ?items =
     Inr (map (outputItem ?p) [(''[object Object]'', [boxA, boxB]), (''1,,b'', [listA])], [])"
    by (simp add: params_eval execute_eval boxA_def boxB_def listA_def numberToString_def
        natToString.simps)
  have v1: "resolveGroupKey plainHost ?get ?p boxA = Data (JObj [(''x'', JNum 1)])"
    and v2: "resolveGroupKey plainHost ?get ?p boxB = Data (JObj [])"
    by (simp_all add: params_eval resolveGroupKey_def getNestedValue_def boxA_def boxB_def)
  have m: "boxA \<in> set ?items" "boxB \<in> set ?items" by simp_all
  have nt: "''toString'' \<notin> set (map fst ([] :: (string \<times> json) list))" by simp
  have l: "list_all2 (\<lambda>x s. if notFound (Data x) then s = []
                              else String_js plainHost (Data x) = Inr s)
             [JNum 1, JNull, JStr ''b''] [''1'', [], ''b'']"
    by (simp add: notFound_def numberToString_def natToString.simps)
  have gs: "?gs = [(''[object Object]'', [boxA, boxB]), (''1,,b'', [listA])]"
    by (simp add: groups_eval params_eval resolveGroupKey_def applyMissingPolicy_def
        sortGroupKeys_def getNestedValue_def boxA_def boxB_def listA_def numberToString_def
        natToString.simps)
  note t = object_and_array_keys [where kvs = "[]" and xs = "[JNum 1, JNull, JStr ''b'']"
      and ss = "[''1'', [], ''b'']" and h = plainHost and get = ?get and lc = codeUnitCompare
      and p = ?p and items = ?items
      and out = "map (outputItem ?p) [(''[object Object]'', [boxA, boxB]), (''1,,b'', [listA])]"
      and hints = "[]" and ?r1.0 = boxA and ?r2.0 = boxB and a = "[(''x'', JNum 1)]" and b = "[]"]
  from t nt have o: "String_js plainHost (Data (JObj [])) = Inr ''[object Object]''" by blast
  from t l have a: "String_js plainHost (Data (JArr [JNum 1, JNull, JStr ''b''])) =
      Inr (joinComma [''1'', [], ''b''])"
    by blast
  from t run m v1 v2 have k: "''[object Object]'' \<in> set (map fst ?gs)"
    unfolding Let_def by blast
  show ?thesis by (intro conjI run v1 v2 o a gs k)
qed

subsection \<open>C9: the group key field\<close>

text \<open>
  C9 as stated: when the group key is included, every output record has a field holding the
  key string, named by the last dot-separated segment of the grouping path.  With dot
  notation disabled the code uses the whole path as the name: for the path \<open>a.b\<close> the
  field is \<open>a.b\<close>, not \<open>b\<close>.
\<close>

theorem group_key_field_literal_path_counterexample:
  "execute plainHost (getNestedValue plainHost) codeUnitCompare (withoutDotNotation (nodeParameters ''a.b''))
     [[(''a.b'', JStr ''x'')]] =
   Inr ([\<lparr>json = [(''a.b'', JStr ''x''), (''items'', JArr [JObj [(''a.b'', JStr ''x'')]])],
           pairedItem = [0]\<rparr>], [])"
  by (simp add: params_eval execute_eval)

text \<open>
  C9 as amended: the name of the key field is the last dot-separated segment of the trimmed
  grouping path when dot notation is enabled, and the whole path when dot notation is
  disabled or the path has no dot.  When the group key is included and the operation
  returns, every output record holds the key string of its group under that name, unless
  the name is \<open>__proto__\<close>, or the output field or the enabled count field has the same
  name: the assignment to \<open>__proto__\<close> writes no field (no output record ever has a field
  of that name), and the two other fields are written later and replace the key.
\<close>

theorem group_key_field:
  "(\<not> disableDotNotation_local p \<longrightarrow> fieldToGroupBy_local p = a @ CHR ''.'' # b \<longrightarrow>
      CHR ''.'' \<notin> set b \<longrightarrow> getOutputKeyName p = b) \<and>
   (disableDotNotation_local p \<or> CHR ''.'' \<notin> set (fieldToGroupBy_local p) \<longrightarrow>
      getOutputKeyName p = fieldToGroupBy_local p) \<and>
   (execute h get lc p items = Inr (out, hints) \<longrightarrow>
      (\<forall>outItem\<in>set out. map_of (json outItem) ''__proto__'' = None)) \<and>
   (execute h get lc p items = Inr (out, hints) \<longrightarrow> includeGroupKey p \<longrightarrow>
    getOutputKeyName p \<noteq> ''__proto__'' \<longrightarrow>
    getOutputKeyName p \<noteq> outputFieldName p \<longrightarrow>
    (includeItemCount_local p \<longrightarrow> getOutputKeyName p \<noteq> itemCountFieldName_local p) \<longrightarrow>
      (let gs = groupList h get lc p items in
         out = map (outputItem p) gs \<and> distinct (map fst gs) \<and>
         map (\<lambda>outItem. map_of (json outItem) (getOutputKeyName p)) out =
           map (\<lambda>g. Some (JStr (fst g))) gs))"
proof (intro conjI impI)
  show "getOutputKeyName p = b"
    if "\<not> disableDotNotation_local p" "fieldToGroupBy_local p = a @ CHR ''.'' # b"
      "CHR ''.'' \<notin> set b"
    using that by (simp add: getOutputKeyName_def last_split_dot)
  show "getOutputKeyName p = fieldToGroupBy_local p"
    if "disableDotNotation_local p \<or> CHR ''.'' \<notin> set (fieldToGroupBy_local p)"
    using that by (auto simp: getOutputKeyName_def)
  show "\<forall>outItem\<in>set out. map_of (json outItem) ''__proto__'' = None"
    if "execute h get lc p items = Inr (out, hints)"
    using execute_Inr_groupList [OF that] by (auto simp: json_outputItem_proto)
next
  let ?gs = "groupList h get lc p items"
  assume run: "execute h get lc p items = Inr (out, hints)"
    and k: "includeGroupKey p" "getOutputKeyName p \<noteq> ''__proto__''"
      "getOutputKeyName p \<noteq> outputFieldName p"
      "includeItemCount_local p \<longrightarrow> getOutputKeyName p \<noteq> itemCountFieldName_local p"
  have out: "out = map (outputItem p) ?gs"
    using run by (rule execute_Inr_groupList)
  have d: "distinct (map fst ?gs)"
    by (simp only: map_fst_groupList distinct_emissionOrder)
  have "map (\<lambda>outItem. map_of (json outItem) (getOutputKeyName p)) out =
      map (\<lambda>g. Some (JStr (fst g))) ?gs"
    by (simp add: out o_def json_outputItem_key [OF k])
  with out d
  show "let gs = groupList h get lc p items in
         out = map (outputItem p) gs \<and> distinct (map fst gs) \<and>
         map (\<lambda>outItem. map_of (json outItem) (getOutputKeyName p)) out =
           map (\<lambda>g. Some (JStr (fst g))) gs"
    unfolding Let_def by blast
qed

theorem group_key_field_witness:
  "execute plainHost (getNestedValue plainHost) codeUnitCompare (nodeParameters ''user.country'')
     [fromUSA, fromUK] =
     Inr ([\<lparr>json = [(''country'', JStr ''USA''), (''items'', JArr [JObj fromUSA])],
             pairedItem = [0]\<rparr>,
           \<lparr>json = [(''country'', JStr ''UK''), (''items'', JArr [JObj fromUK])],
             pairedItem = [0]\<rparr>], []) \<and>
   getOutputKeyName (nodeParameters ''user.country'') = ''country'' \<and>
   groupList plainHost (getNestedValue plainHost) codeUnitCompare (nodeParameters ''user.country'')
     [fromUSA, fromUK] = [(''USA'', [fromUSA]), (''UK'', [fromUK])] \<and>
   map (\<lambda>outItem. map_of (json outItem) (getOutputKeyName (nodeParameters ''user.country'')))
     [\<lparr>json = [(''country'', JStr ''USA''), (''items'', JArr [JObj fromUSA])],
        pairedItem = [0]\<rparr>,
      \<lparr>json = [(''country'', JStr ''UK''), (''items'', JArr [JObj fromUK])],
        pairedItem = [0]\<rparr>] = [Some (JStr ''USA''), Some (JStr ''UK'')]"
proof -
  let ?p = "nodeParameters ''user.country''"
  let ?get = "getNestedValue plainHost"
  let ?out = "[\<lparr>json = [(''country'', JStr ''USA''), (''items'', JArr [JObj fromUSA])],
             pairedItem = [0]\<rparr>,
           \<lparr>json = [(''country'', JStr ''UK''), (''items'', JArr [JObj fromUK])],
             pairedItem = [0]\<rparr>]"
  let ?gs = "groupList plainHost ?get codeUnitCompare ?p [fromUSA, fromUK]"
  have run: "execute plainHost ?get codeUnitCompare ?p [fromUSA, fromUK] = Inr (?out, [])"
    by (simp add: params_eval execute_eval fromUSA_def fromUK_def)
  have f: "fieldToGroupBy_local ?p = ''user'' @ CHR ''.'' # ''country''"
    and nd: "\<not> disableDotNotation_local ?p" and dot: "CHR ''.'' \<notin> set ''country''"
    and ik: "includeGroupKey ?p" and ofn: "outputFieldName ?p = ''items''"
    and ic: "\<not> includeItemCount_local ?p"
    by (simp_all add: params_eval)
  have gs: "?gs = [(''USA'', [fromUSA]), (''UK'', [fromUK])]"
    by (simp add: groups_eval params_eval resolveGroupKey_def applyMissingPolicy_def
        sortGroupKeys_def getNestedValue_def fromUSA_def fromUK_def)
  note t = group_key_field [where p = ?p and a = "''user''" and b = "''country''"
      and h = plainHost and get = ?get and lc = codeUnitCompare
      and items = "[fromUSA, fromUK]" and out = ?out and hints = "[]"]
  from t nd f dot have name: "getOutputKeyName ?p = ''country''" by blast
  then have ne: "getOutputKeyName ?p \<noteq> outputFieldName ?p"
    and np: "getOutputKeyName ?p \<noteq> ''__proto__''"
    by (simp_all add: ofn)
  from t run ik np ne ic have
    "map (\<lambda>outItem. map_of (json outItem) (getOutputKeyName ?p)) ?out =
       map (\<lambda>g. Some (JStr (fst g))) ?gs"
    unfolding Let_def by blast
  then have field: "map (\<lambda>outItem. map_of (json outItem) (getOutputKeyName ?p)) ?out =
      [Some (JStr ''USA''), Some (JStr ''UK'')]"
    unfolding gs by simp
  show ?thesis by (intro conjI run name gs field)
qed

subsection \<open>C4: resolving the field path\<close>




end
